theory Spec2Isabelle
  imports Complex_Main "HOL-Library.Char_ord" "HOL-Library.List_Lexorder"
begin

section \<open>JavaScript numbers\<close>

text \<open>
  A JavaScript number is a finite value, one of the two infinities, or NaN. Finite values are
  modelled as reals. The arithmetic is a parameter of every function that computes: \<open>Exact\<close>
  is arithmetic over the reals, in which a finite result is never replaced; \<open>Binary64\<close>
  replaces a result whose magnitude exceeds \<open>Number.MAX_VALUE\<close> by the infinity of its sign,
  and leaves every other result exact, so that it has the overflow of IEEE 754 double
  arithmetic but neither its rounding nor its underflow. The next section defines the rounding
  of double arithmetic, in which \<open>normalizeLandmarks\<close> is given a second time. The sign of zero
  is not modelled. The special cases (NaN is contagious, \<open>Infinity - Infinity\<close>,
  \<open>0 * Infinity\<close>, \<open>0 / 0\<close>, comparisons with NaN are false) follow ECMAScript.
\<close>

datatype number = Fin real | PInf | NInf | NaN

datatype arith = Exact | Binary64

definition MAX_VALUE :: real where
  "MAX_VALUE = 2 ^ 1024 - 2 ^ 971"

definition fl :: "arith \<Rightarrow> real \<Rightarrow> number" where
  "fl a r = (case a of
       Exact \<Rightarrow> Fin r
     | Binary64 \<Rightarrow> if MAX_VALUE < r then PInf else if r < - MAX_VALUE then NInf else Fin r)"

fun isNaN :: "number \<Rightarrow> bool" where
  "isNaN NaN = True"
| "isNaN _ = False"

fun isFinite :: "number \<Rightarrow> bool" where
  "isFinite (Fin r) = True"
| "isFinite _ = False"

text \<open>The infinity with the sign of \<open>s\<close>, for \<open>s \<noteq> 0\<close>.\<close>

definition inf_of_sign :: "real \<Rightarrow> number" where
  "inf_of_sign s = (if 0 < s then PInf else NInf)"

fun jsNeg :: "number \<Rightarrow> number" where
  "jsNeg (Fin r) = Fin (- r)"
| "jsNeg PInf = NInf"
| "jsNeg NInf = PInf"
| "jsNeg NaN = NaN"

fun jsAdd :: "arith \<Rightarrow> number \<Rightarrow> number \<Rightarrow> number" where
  "jsAdd a (Fin p) (Fin q) = fl a (p + q)"
| "jsAdd a NaN v = NaN"
| "jsAdd a u NaN = NaN"
| "jsAdd a PInf NInf = NaN"
| "jsAdd a NInf PInf = NaN"
| "jsAdd a PInf v = PInf"
| "jsAdd a NInf v = NInf"
| "jsAdd a (Fin p) v = v"

definition jsSub :: "arith \<Rightarrow> number \<Rightarrow> number \<Rightarrow> number" where
  "jsSub a u v = jsAdd a u (jsNeg v)"

fun jsMul :: "arith \<Rightarrow> number \<Rightarrow> number \<Rightarrow> number" where
  "jsMul a (Fin p) (Fin q) = fl a (p * q)"
| "jsMul a NaN v = NaN"
| "jsMul a u NaN = NaN"
| "jsMul a (Fin p) v = (if p = 0 then NaN else if 0 < p then v else jsNeg v)"
| "jsMul a u (Fin q) = (if q = 0 then NaN else if 0 < q then u else jsNeg u)"
| "jsMul a PInf v = v"
| "jsMul a NInf v = jsNeg v"

fun jsDiv :: "arith \<Rightarrow> number \<Rightarrow> number \<Rightarrow> number" where
  "jsDiv a (Fin p) (Fin q) =
     (if q = 0 then (if p = 0 then NaN else inf_of_sign p) else fl a (p / q))"
| "jsDiv a NaN v = NaN"
| "jsDiv a u NaN = NaN"
| "jsDiv a (Fin p) v = Fin 0"
| "jsDiv a u (Fin q) = (if 0 \<le> q then u else jsNeg u)"
| "jsDiv a u v = NaN"

text \<open>\<open>Math.sqrt\<close>, \<open>Math.pow(v, 2)\<close> and \<open>Math.acos\<close>.\<close>

fun Math_sqrt :: "number \<Rightarrow> number" where
  "Math_sqrt (Fin r) = (if r < 0 then NaN else Fin (sqrt r))"
| "Math_sqrt PInf = PInf"
| "Math_sqrt v = NaN"

fun Math_pow2 :: "arith \<Rightarrow> number \<Rightarrow> number" where
  "Math_pow2 a (Fin r) = fl a (r * r)"
| "Math_pow2 a NaN = NaN"
| "Math_pow2 a v = PInf"

fun Math_acos :: "number \<Rightarrow> number" where
  "Math_acos (Fin r) = (if - 1 \<le> r \<and> r \<le> 1 then Fin (arccos r) else NaN)"
| "Math_acos v = NaN"

text \<open>The comparisons \<open>u > v\<close>, \<open>u < v\<close> and \<open>u >= v\<close>: false when an operand is NaN.\<close>

fun jsLt :: "number \<Rightarrow> number \<Rightarrow> bool" where
  "jsLt (Fin p) (Fin q) = (p < q)"
| "jsLt NaN v = False"
| "jsLt u NaN = False"
| "jsLt u NInf = False"
| "jsLt PInf v = False"
| "jsLt u v = True"

definition jsGt :: "number \<Rightarrow> number \<Rightarrow> bool" where
  "jsGt u v = jsLt v u"

definition jsGe :: "number \<Rightarrow> number \<Rightarrow> bool" where
  "jsGe u v = (\<not> isNaN u \<and> \<not> isNaN v \<and> \<not> jsLt u v)"

text \<open>\<open>Math.max\<close> and \<open>Math.min\<close> of two arguments, and \<open>Math.max(...xs)\<close>, which is
  \<open>-Infinity\<close> for no argument.\<close>

definition Math_max2 :: "number \<Rightarrow> number \<Rightarrow> number" where
  "Math_max2 u v = (if isNaN u \<or> isNaN v then NaN else if jsLt u v then v else u)"

definition Math_min2 :: "number \<Rightarrow> number \<Rightarrow> number" where
  "Math_min2 u v = (if isNaN u \<or> isNaN v then NaN else if jsLt v u then v else u)"

definition Math_max :: "number list \<Rightarrow> number" where
  "Math_max xs = foldl Math_max2 NInf xs"


section \<open>Rounding to the nearest double\<close>

text \<open>
  The finite values of a JavaScript number are the IEEE 754 doubles, and an arithmetic
  operation gives the double nearest to its exact result, a tie going to the double whose last
  bit is even. \<open>rne\<close> rounds a real to the nearest integer in this way. The exponent of a
  number \<open>r\<close> is the \<open>e\<close> with \<open>2 ^ e \<le> \<bar>r\<bar> < 2 ^ (e + 1)\<close>, and \<open>-1022\<close> for the
  numbers below the normal range; the doubles from \<open>2 ^ e\<close> to \<open>2 ^ (e + 1)\<close> are the multiples
  of \<open>ulp r = 2 ^ (e - 52)\<close>, and those below the normal range the multiples of
  \<open>MIN_VALUE\<close>. \<open>nearest r\<close> is the multiple of \<open>ulp r\<close> nearest to \<open>r\<close> (for \<open>r = 0\<close> it is 0,
  whatever the unit). \<open>double r\<close> is the number that an operation with the exact result \<open>r\<close>
  gives: the infinity of the sign of \<open>r\<close> when the nearest multiple exceeds \<open>MAX_VALUE\<close>.
  \<open>Math.sqrt\<close> is rounded in the same way, as the square root of IEEE 754 is. The sign of
  zero is not modelled.
\<close>

definition rne :: "real \<Rightarrow> int" where
  "rne x = (let f = \<lfloor>x\<rfloor> in
     if x - of_int f < 1 / 2 then f
     else if 1 / 2 < x - of_int f then f + 1
     else if even f then f else f + 1)"

definition exponent :: "real \<Rightarrow> int" where
  "exponent r = max \<lfloor>log 2 \<bar>r\<bar>\<rfloor> (- 1022)"

definition ulp :: "real \<Rightarrow> real" where
  "ulp r = 2 powi (exponent r - 52)"

definition nearest :: "real \<Rightarrow> real" where
  "nearest r = sgn r * (of_int (rne (\<bar>r\<bar> / ulp r)) * ulp r)"

definition MIN_VALUE :: real where
  "MIN_VALUE = 2 powi (- 1074)"

definition double :: "real \<Rightarrow> number" where
  "double r = (if MAX_VALUE < \<bar>nearest r\<bar> then inf_of_sign r else Fin (nearest r))"

text \<open>The result of an operation, from its result in exact arithmetic.\<close>

fun rounded :: "number \<Rightarrow> number" where
  "rounded (Fin r) = double r"
| "rounded v = v"

section \<open>Landmarks, normalization and feature extraction\<close>

record landmark =
  lm_x :: number
  lm_y :: number
  lm_z :: number

datatype error = TypeError | NoTrainingData | TooFewSigns | LibraryError

text \<open>The callback of the first \<open>map\<close> of \<open>normalizeLandmarks\<close>: the point relative to the wrist.\<close>

definition translate :: "arith \<Rightarrow> landmark \<Rightarrow> landmark \<Rightarrow> landmark" where
  "translate a wrist point =
     \<lparr>lm_x = jsSub a (lm_x point) (lm_x wrist),
      lm_y = jsSub a (lm_y point) (lm_y wrist),
      lm_z = jsSub a (lm_z point) (lm_z wrist)\<rparr>"

text \<open>The callback of the second \<open>map\<close>: the distance of a point from the origin.\<close>

definition originDistance :: "arith \<Rightarrow> landmark \<Rightarrow> number" where
  "originDistance a point =
     Math_sqrt (jsAdd a (jsAdd a (jsMul a (lm_x point) (lm_x point))
                                 (jsMul a (lm_y point) (lm_y point)))
                        (jsMul a (lm_z point) (lm_z point)))"

text \<open>The callback of the last \<open>map\<close>: the point divided by the scale.\<close>

definition scaleDown :: "arith \<Rightarrow> number \<Rightarrow> landmark \<Rightarrow> landmark" where
  "scaleDown a maxDistance point =
     \<lparr>lm_x = jsDiv a (lm_x point) maxDistance,
      lm_y = jsDiv a (lm_y point) maxDistance,
      lm_z = jsDiv a (lm_z point) maxDistance\<rparr>"

text \<open>The locals \<open>normalized\<close> and \<open>maxDistance\<close> of \<open>normalizeLandmarks\<close>. On the empty
  array \<open>wrist\<close> is \<open>undefined\<close>, but no callback runs and nothing reads it.\<close>

fun normalized :: "arith \<Rightarrow> landmark list \<Rightarrow> landmark list" where
  "normalized a [] = []"
| "normalized a (wrist # rest) = map (translate a wrist) (wrist # rest)"

definition maxDistance :: "arith \<Rightarrow> landmark list \<Rightarrow> number" where
  "maxDistance a landmarks =
     Math_max (filter (\<lambda>d. jsGt d (Fin 0)) (map (originDistance a) (normalized a landmarks)))"

definition normalizeLandmarks :: "arith \<Rightarrow> landmark list \<Rightarrow> landmark list" where
  "normalizeLandmarks a landmarks =
     (if maxDistance a landmarks = Fin 0 \<or> \<not> isFinite (maxDistance a landmarks)
      then normalized a landmarks
      else map (scaleDown a (maxDistance a landmarks)) (normalized a landmarks))"

text \<open>\<open>normalizeLandmarks\<close> in double arithmetic: each subtraction, multiplication, addition,
  square root and division is rounded to the nearest double. The functions are those above,
  with the suffix 64.\<close>

definition translate64 :: "landmark \<Rightarrow> landmark \<Rightarrow> landmark" where
  "translate64 wrist point =
     \<lparr>lm_x = rounded (jsSub Exact (lm_x point) (lm_x wrist)),
      lm_y = rounded (jsSub Exact (lm_y point) (lm_y wrist)),
      lm_z = rounded (jsSub Exact (lm_z point) (lm_z wrist))\<rparr>"

definition originDistance64 :: "landmark \<Rightarrow> number" where
  "originDistance64 point =
     rounded (Math_sqrt
       (rounded (jsAdd Exact
          (rounded (jsAdd Exact (rounded (jsMul Exact (lm_x point) (lm_x point)))
                                (rounded (jsMul Exact (lm_y point) (lm_y point)))))
          (rounded (jsMul Exact (lm_z point) (lm_z point))))))"

definition scaleDown64 :: "number \<Rightarrow> landmark \<Rightarrow> landmark" where
  "scaleDown64 scale point =
     \<lparr>lm_x = rounded (jsDiv Exact (lm_x point) scale),
      lm_y = rounded (jsDiv Exact (lm_y point) scale),
      lm_z = rounded (jsDiv Exact (lm_z point) scale)\<rparr>"

fun normalized64 :: "landmark list \<Rightarrow> landmark list" where
  "normalized64 [] = []"
| "normalized64 (wrist # rest) = map (translate64 wrist) (wrist # rest)"

definition maxDistance64 :: "landmark list \<Rightarrow> number" where
  "maxDistance64 landmarks =
     Math_max (filter (\<lambda>d. jsGt d (Fin 0)) (map originDistance64 (normalized64 landmarks)))"

definition normalizeLandmarks64 :: "landmark list \<Rightarrow> landmark list" where
  "normalizeLandmarks64 landmarks =
     (if maxDistance64 landmarks = Fin 0 \<or> \<not> isFinite (maxDistance64 landmarks)
      then normalized64 landmarks
      else map (scaleDown64 (maxDistance64 landmarks)) (normalized64 landmarks))"

definition euclideanDistance :: "arith \<Rightarrow> number list \<Rightarrow> number list \<Rightarrow> number" where
  "euclideanDistance ar a b =
     (if length a \<noteq> length b then PInf
      else Math_sqrt (foldl (\<lambda>sum (ai, bi). jsAdd ar sum (Math_pow2 ar (jsSub ar ai bi)))
                            (Fin 0) (zip a b)))"

definition calculateAngle :: "arith \<Rightarrow> landmark \<Rightarrow> landmark \<Rightarrow> landmark \<Rightarrow> number" where
  "calculateAngle a p1 p2 p3 =
     (let v1 = translate a p2 p1;
          v2 = translate a p2 p3;
          dot = jsAdd a (jsAdd a (jsMul a (lm_x v1) (lm_x v2)) (jsMul a (lm_y v1) (lm_y v2)))
                        (jsMul a (lm_z v1) (lm_z v2));
          mag1 = originDistance a v1;
          mag2 = originDistance a v2
      in if mag1 = Fin 0 \<or> mag2 = Fin 0 then Fin 0
         else let cosAngle = jsDiv a dot (jsMul a mag1 mag2);
                  clampedCos = Math_max2 (Fin (- 1)) (Math_min2 (Fin 1) cosAngle)
              in Math_acos clampedCos)"

definition fingerTips :: "nat list" where
  "fingerTips = [4, 8, 12, 16, 20]"

definition fingerBases :: "nat list" where
  "fingerBases = [2, 5, 9, 13, 17]"

definition palmPoints :: "nat list" where
  "palmPoints = [0, 1, 5, 9, 13, 17]"

definition coords :: "landmark \<Rightarrow> number list" where
  "coords p = [lm_x p, lm_y p, lm_z p]"

text \<open>The four groups that \<open>extractFeatures\<close> pushes, in the order it pushes them.\<close>

definition rawCoordinates :: "landmark list \<Rightarrow> number list" where
  "rawCoordinates landmarks = concat (map coords landmarks)"

definition tipDistances :: "arith \<Rightarrow> landmark list \<Rightarrow> number list" where
  "tipDistances a landmarks =
     map (\<lambda>i. euclideanDistance a (coords (landmarks ! (fingerTips ! i)))
                                   (coords (landmarks ! (fingerBases ! i))))
         [0..<length fingerTips]"

definition palmDistances :: "arith \<Rightarrow> landmark list \<Rightarrow> number list" where
  "palmDistances a landmarks =
     concat (map (\<lambda>i. map (\<lambda>j. euclideanDistance a (coords (landmarks ! (palmPoints ! i)))
                                                    (coords (landmarks ! (palmPoints ! j))))
                           [i + 1..<length palmPoints])
                 [0..<length palmPoints])"

definition jointAngles :: "arith \<Rightarrow> landmark list \<Rightarrow> number list" where
  "jointAngles a landmarks =
     map (\<lambda>i. calculateAngle a (landmarks ! (i - 1)) (landmarks ! i) (landmarks ! (i + 1)))
         (filter (\<lambda>i. i + 1 < length landmarks) [1..<length landmarks])"

definition finiteFeature :: "number \<Rightarrow> bool" where
  "finiteFeature f = (\<not> isNaN f \<and> isFinite f)"

text \<open>\<open>extractFeatures\<close> reads \<open>landmarks[20]\<close> and lower indices; on a shorter array the read
  is \<open>undefined\<close> and taking its \<open>x\<close> throws a TypeError.\<close>

definition extractFeatures :: "arith \<Rightarrow> landmark list \<Rightarrow> error + number list" where
  "extractFeatures a landmarks =
     (if length landmarks \<le> 20 then Inl TypeError
      else Inr (filter finiteFeature
                  (rawCoordinates landmarks @ tipDistances a landmarks
                   @ palmDistances a landmarks @ jointAngles a landmarks)))"

section \<open>Training data and the classifier\<close>

record sample =
  s_landmarks :: "landmark list option"
  s_sign :: string

record data =
  d_features :: "number list list"
  d_labels :: "string list"

text \<open>The body of the \<open>forEach\<close> of \<open>preprocessLandmarks\<close>. With 21 landmarks
  \<open>extractFeatures\<close> does not throw, so its error branch is not reached.\<close>

definition preprocessSample :: "arith \<Rightarrow> data \<Rightarrow> sample \<Rightarrow> data" where
  "preprocessSample a d sample =
     (case s_landmarks sample of
        None \<Rightarrow> d
      | Some lms \<Rightarrow>
          if length lms = 21 then
            (case extractFeatures a (normalizeLandmarks a lms) of
               Inl e \<Rightarrow> d
             | Inr fs \<Rightarrow>
                 if list_all finiteFeature fs
                 then \<lparr>d_features = d_features d @ [fs], d_labels = d_labels d @ [s_sign sample]\<rparr>
                 else d)
          else d)"

definition preprocessLandmarks :: "arith \<Rightarrow> sample list \<Rightarrow> data" where
  "preprocessLandmarks a samples = foldl (preprocessSample a) \<lparr>d_features = [], d_labels = []\<rparr> samples"

text \<open>\<open>[...new Set(labels)]\<close>: a set keeps its elements in the order of their first
  insertion.\<close>

definition setAdd :: "'a list \<Rightarrow> 'a \<Rightarrow> 'a list" where
  "setAdd s v = (if v \<in> set s then s else s @ [v])"

definition newSet :: "'a list \<Rightarrow> 'a list" where
  "newSet xs = foldl setAdd [] xs"

text \<open>The object \<open>net.run\<close> returns, as its entries in the order of \<open>Object.keys\<close>.\<close>

type_synonym scores = "(string \<times> number) list"

text \<open>The library brain.js is not part of the repository; it is a parameter. \<open>brain_train\<close>
  stands for building a network with the configuration of \<open>trainClassifier\<close>, training it on
  the pairs of an input and the label whose output is 1, and \<open>toJSON\<close>; \<open>brain_fromJSON\<close> and
  \<open>brain_run\<close> for loading and running a network. Each may throw.\<close>

record ('net, 'stats) brain =
  brain_train :: "(number list \<times> string) list \<Rightarrow> error + 'net \<times> 'stats"
  brain_fromJSON :: "'net \<Rightarrow> error + 'net"
  brain_run :: "'net \<Rightarrow> number list \<Rightarrow> error + scores"

record ('net, 'stats) classifier =
  c_type :: string
  c_network :: "'net option"
  c_uniqueLabels :: "string list"
  c_trained :: bool
  c_timestamp :: string
  c_stats :: 'stats
  c_featureLength :: nat

text \<open>\<open>labels[index]\<close>, which as a computed key is \<open>undefined\<close> beyond the end.\<close>

definition labelAt :: "string list \<Rightarrow> nat \<Rightarrow> string" where
  "labelAt ls i = (if i < length ls then ls ! i else ''undefined'')"

text \<open>The local \<open>trainingData\<close> of \<open>trainClassifier\<close>: each feature vector with the label
  whose output is 1.\<close>

definition trainingData :: "data \<Rightarrow> (number list \<times> string) list" where
  "trainingData d =
     map (\<lambda>index. (d_features d ! index, labelAt (d_labels d) index)) [0..<length (d_features d)]"

text \<open>\<open>now\<close> is the value of \<open>new Date().toISOString()\<close>.\<close>

definition trainClassifier ::
  "('net, 'stats) brain \<Rightarrow> string \<Rightarrow> data \<Rightarrow> error + ('net, 'stats) classifier" where
  "trainClassifier lib now d =
     (if length (d_features d) = 0 then Inl NoTrainingData
      else let uniqueLabels = newSet (d_labels d) in
        if length uniqueLabels < 2 then Inl TooFewSigns
        else case brain_train lib (trainingData d) of
                  Inl e \<Rightarrow> Inl e
                | Inr (net, stats) \<Rightarrow>
                    Inr \<lparr>c_type = ''neural_network'', c_network = Some net,
                         c_uniqueLabels = uniqueLabels, c_trained = True, c_timestamp = now,
                         c_stats = stats, c_featureLength = length (d_features d ! 0)\<rparr>)"

section \<open>Prediction\<close>

record prediction =
  p_sign :: string
  p_confidence :: number
  p_allPredictions :: "scores option"

text \<open>What \<open>predictSign\<close> reads of the settings; an absent field is \<open>None\<close>.\<close>

record settings =
  st_confidenceThreshold :: "number option"

text \<open>The values of a number that \<open>||\<close> treats as false.\<close>

definition falsy :: "number \<Rightarrow> bool" where
  "falsy v = (v = Fin 0 \<or> isNaN v)"

text \<open>The body of the \<open>forEach\<close> over \<open>Object.keys(prediction)\<close>, on the pair of
  \<open>maxConfidence\<close> and \<open>predictedSign\<close>.\<close>

definition pickMax :: "number \<times> string \<Rightarrow> string \<times> number \<Rightarrow> number \<times> string" where
  "pickMax st entry =
     (if jsGt (snd entry) (fst st) then (snd entry, fst entry) else st)"

definition sentinel :: "string \<Rightarrow> prediction" where
  "sentinel s = \<lparr>p_sign = s, p_confidence = Fin 0, p_allPredictions = None\<rparr>"

text \<open>An entry of the object \<open>signCounts\<close> of the training route: a number of samples, or
  a text, which is what the route computes for a sign named like a property that every
  object inherits (see \<open>countSign\<close> below).\<close>

datatype count = Count nat | Text

text \<open>A stored model: the fields that the training and prediction code reads or writes. A
  field that a model may lack is an option. \<open>m_trainingProgress\<close> stands for the progress,
  accuracy and per-sign accuracy that the training route makes up from \<open>Math.random\<close>.\<close>

record ('net, 'stats, 'rep) model =
  m_samples :: "sample list option"
  m_classifier :: "('net, 'stats) classifier option"
  m_trainingProgress :: "'rep option"
  m_trainedAt :: "string option"
  m_sampleCounts :: "(string \<times> count) list option"
  m_updatedAt :: "string option"

text \<open>Every exception inside the \<open>try\<close> of \<open>predictSign\<close> gives the result \<open>ERROR\<close>.\<close>

definition predictSign ::
  "arith \<Rightarrow> ('net, 'stats) brain \<Rightarrow> ('net, 'stats, 'rep) model \<Rightarrow> landmark list
     \<Rightarrow> settings \<Rightarrow> prediction" where
  "predictSign a lib model landmarks st =
     (case m_classifier model of
        None \<Rightarrow> sentinel ''UNKNOWN''
      | Some c \<Rightarrow>
     (case c_network c of
        None \<Rightarrow> sentinel ''UNKNOWN''
      | Some json \<Rightarrow>
     (case brain_fromJSON lib json of
        Inl e \<Rightarrow> sentinel ''ERROR''
      | Inr net \<Rightarrow>
     (case extractFeatures a (normalizeLandmarks a landmarks) of
        Inl e \<Rightarrow> sentinel ''ERROR''
      | Inr fs \<Rightarrow>
          if length fs = 0 \<or> list_ex (\<lambda>f. isNaN f \<or> \<not> isFinite f) fs
          then sentinel ''INVALID''
          else
     (case brain_run lib net fs of
        Inl e \<Rightarrow> sentinel ''ERROR''
      | Inr scores \<Rightarrow>
          let found = foldl pickMax (Fin 0, ''UNKNOWN'') scores;
              threshold = (case st_confidenceThreshold st of
                             None \<Rightarrow> Fin 0.7
                           | Some t \<Rightarrow> if falsy t then Fin 0.7 else t);
              uncertain = jsLt (fst found) (jsMul a threshold (Fin 0.5));
              predictedSign = (if uncertain then ''UNCERTAIN'' else snd found);
              maxConfidence = (if uncertain then jsMul a (fst found) (Fin 0.5) else fst found)
          in \<lparr>p_sign = predictedSign,
              p_confidence = Math_min2 (Fin 0.99) (Math_max2 (Fin 0.01) maxConfidence),
              p_allPredictions = Some scores\<rparr>)))))"

section \<open>Practice feedback\<close>

record feedback =
  f_prediction :: string
  f_confidence :: number
  f_expectedSign :: string
  f_isCorrect :: bool
  f_isPartiallyCorrect :: bool
  f_status :: string
  f_color :: string
  f_icon :: string

text \<open>The feedback that the route \<open>/practice-predict\<close> builds from the prediction and the
  expected sign (the message and the time stamp are left out).\<close>

definition practiceFeedback :: "prediction \<Rightarrow> string \<Rightarrow> feedback" where
  "practiceFeedback p expectedSign =
     (let isCorrect = (p_sign p = expectedSign \<and> jsGe (p_confidence p) (Fin 0.7));
          isPartiallyCorrect = (p_sign p = expectedSign \<and> jsGe (p_confidence p) (Fin 0.5));
          fb = \<lparr>f_prediction = p_sign p, f_confidence = p_confidence p,
                f_expectedSign = expectedSign, f_isCorrect = isCorrect,
                f_isPartiallyCorrect = isPartiallyCorrect,
                f_status = [], f_color = [], f_icon = []\<rparr>
      in if isCorrect
         then fb\<lparr>f_status := ''success'', f_color := ''green'', f_icon := ''check''\<rparr>
         else if isPartiallyCorrect
         then fb\<lparr>f_status := ''partial'', f_color := ''orange'', f_icon := ''warning''\<rparr>
         else if jsGe (p_confidence p) (Fin 0.4)
         then fb\<lparr>f_status := ''incorrect'', f_color := ''red'', f_icon := ''x''\<rparr>
         else fb\<lparr>f_status := ''unclear'', f_color := ''gray'', f_icon := ''eye-off''\<rparr>)"

text \<open>The decision table of the specification, row by row. Its category \<open>mismatch\<close> is the
  status \<open>incorrect\<close> of the route.\<close>

datatype category = Success | Partial | Mismatch | Unclear

definition classify_spec :: "string \<Rightarrow> string \<Rightarrow> real \<Rightarrow> category" where
  "classify_spec predictedLabel expectedLabel c =
     (if predictedLabel = expectedLabel \<and> 0.7 \<le> c then Success
      else if predictedLabel = expectedLabel \<and> 0.5 \<le> c \<and> c < 0.7 then Partial
      else if predictedLabel \<noteq> expectedLabel \<and> 0.4 \<le> c then Mismatch
      else Unclear)"

definition status_name :: "category \<Rightarrow> string" where
  "status_name c = (case c of Success \<Rightarrow> ''success'' | Partial \<Rightarrow> ''partial''
                     | Mismatch \<Rightarrow> ''incorrect'' | Unclear \<Rightarrow> ''unclear'')"

section \<open>The model store and the training route\<close>

text \<open>The store is a directory of files, one per model, each holding \<open>JSON.stringify\<close> of the
  model. What lies outside the repository is a parameter: \<open>path_join\<close> is the path that
  \<open>path.join(modelsDir, `${modelId}.json`)\<close> gives for an identifier, so that two identifiers
  may name the same file; \<open>JSON_network\<close>, \<open>JSON_stats\<close> and \<open>JSON_progress\<close> are what
  \<open>JSON.parse(JSON.stringify(v))\<close> gives for the network, the statistics and the progress
  of a training.\<close>

record ('net, 'stats, 'rep) runtime =
  path_join :: "string \<Rightarrow> string"
  JSON_network :: "'net \<Rightarrow> 'net"
  JSON_stats :: "'stats \<Rightarrow> 'stats"
  JSON_progress :: "'rep \<Rightarrow> 'rep"

text \<open>JSON has no NaN and no infinity: \<open>JSON.stringify\<close> writes them as \<open>null\<close>. The only
  reader of a stored coordinate is the subtraction of \<open>normalizeLandmarks\<close>, which converts
  \<open>null\<close> to 0; so a stored \<open>null\<close> is the number 0 here.\<close>

definition jsonNumber :: "number \<Rightarrow> number" where
  "jsonNumber v = (if isFinite v then v else Fin 0)"

definition jsonLandmark :: "landmark \<Rightarrow> landmark" where
  "jsonLandmark p =
     \<lparr>lm_x = jsonNumber (lm_x p), lm_y = jsonNumber (lm_y p), lm_z = jsonNumber (lm_z p)\<rparr>"

definition jsonSample :: "sample \<Rightarrow> sample" where
  "jsonSample s = s\<lparr>s_landmarks := map_option (map jsonLandmark) (s_landmarks s)\<rparr>"

definition jsonClassifier ::
  "('net, 'stats, 'rep) runtime \<Rightarrow> ('net, 'stats) classifier \<Rightarrow> ('net, 'stats) classifier" where
  "jsonClassifier rt c =
     c\<lparr>c_network := map_option (JSON_network rt) (c_network c), c_stats := JSON_stats rt (c_stats c)\<rparr>"

text \<open>The model that a file holds after \<open>JSON.stringify(model)\<close> was written to it.\<close>

definition jsonModel ::
  "('net, 'stats, 'rep) runtime \<Rightarrow> ('net, 'stats, 'rep) model \<Rightarrow> ('net, 'stats, 'rep) model" where
  "jsonModel rt m =
     m\<lparr>m_samples := map_option (map jsonSample) (m_samples m),
       m_classifier := map_option (jsonClassifier rt) (m_classifier m),
       m_trainingProgress := map_option (JSON_progress rt) (m_trainingProgress m)\<rparr>"

text \<open>The files of the directory, by path: the model that \<open>JSON.parse\<close> reads from each. A
  path without an entry is a file that is missing, or cannot be read or parsed. A write to a
  file that was just read is taken to succeed.\<close>

type_synonym ('net, 'stats, 'rep) store = "string \<rightharpoonup> ('net, 'stats, 'rep) model"

definition getModel ::
  "('net, 'stats, 'rep) runtime \<Rightarrow> ('net, 'stats, 'rep) store \<Rightarrow> string
     \<Rightarrow> ('net, 'stats, 'rep) model option" where
  "getModel rt st modelId = st (path_join rt modelId)"

text \<open>\<open>updateModel\<close> merges the update into the stored model, stamps it, writes it to the file
  and returns it as it is in memory; the update is a function on models, \<open>now\<close> the time of
  the call.\<close>

definition updateModel ::
  "('net, 'stats, 'rep) runtime \<Rightarrow> string \<Rightarrow> ('net, 'stats, 'rep) store \<Rightarrow> string
     \<Rightarrow> (('net, 'stats, 'rep) model \<Rightarrow> ('net, 'stats, 'rep) model)
     \<Rightarrow> ('net, 'stats, 'rep) model option \<times> ('net, 'stats, 'rep) store" where
  "updateModel rt now st modelId updateData =
     (case getModel rt st modelId of
        None \<Rightarrow> (None, st)
      | Some model \<Rightarrow>
          let updatedModel = (updateData model)\<lparr>m_updatedAt := Some now\<rparr>
          in (Some updatedModel, st(path_join rt modelId \<mapsto> jsonModel rt updatedModel)))"

definition samplesOf :: "('net, 'stats, 'rep) model \<Rightarrow> sample list" where
  "samplesOf model = (case m_samples model of None \<Rightarrow> [] | Some ss \<Rightarrow> ss)"

definition addSamplesToModel ::
  "('net, 'stats, 'rep) runtime \<Rightarrow> string \<Rightarrow> ('net, 'stats, 'rep) store \<Rightarrow> string \<Rightarrow> sample list
     \<Rightarrow> ('net, 'stats, 'rep) model option \<times> ('net, 'stats, 'rep) store" where
  "addSamplesToModel rt now st modelId newSamples =
     (case getModel rt st modelId of
        None \<Rightarrow> (None, st)
      | Some model \<Rightarrow>
          updateModel rt now st modelId (\<lambda>m. m\<lparr>m_samples := Some (samplesOf model @ newSamples)\<rparr>))"

text \<open>An object used as a dictionary is the list of its own entries in the order of their
  insertion. \<open>Object.keys\<close> lists the keys that are array indices first, in ascending numeric
  order, then the others in the order of insertion.\<close>

definition isDigit :: "char \<Rightarrow> bool" where
  "isDigit c = (48 \<le> (of_char c :: nat) \<and> (of_char c :: nat) \<le> 57)"

definition decimalValue :: "string \<Rightarrow> nat" where
  "decimalValue s = foldl (\<lambda>n c. 10 * n + (of_char c - 48)) 0 s"

definition isArrayIndex :: "string \<Rightarrow> bool" where
  "isArrayIndex s =
     (s \<noteq> [] \<and> list_all isDigit s \<and> (hd s \<noteq> CHR ''0'' \<or> s = ''0'')
      \<and> decimalValue s < 2 ^ 32 - 1)"

definition objectKeys :: "(string \<times> 'v) list \<Rightarrow> string list" where
  "objectKeys entries =
     (let ks = map fst entries
      in sort_key decimalValue (filter isArrayIndex ks) @ filter (\<lambda>k. \<not> isArrayIndex k) ks)"

text \<open>The names that the empty object \<open>{}\<close> inherits from \<open>Object.prototype\<close>. Reading one
  of them from \<open>signCounts\<close> before it is written gives a function (for \<open>__proto__\<close> an
  object), not \<open>undefined\<close>.\<close>

definition inheritedNames :: "string list" where
  "inheritedNames =
     [''constructor'', ''__defineGetter__'', ''__defineSetter__'', ''hasOwnProperty'',
      ''__lookupGetter__'', ''__lookupSetter__'', ''isPrototypeOf'', ''propertyIsEnumerable'',
      ''toString'', ''valueOf'', ''__proto__'', ''toLocaleString'']"

text \<open>\<open>signCounts[sample.sign] = (signCounts[sample.sign] || 0) + 1\<close>. An own entry that is a
  number is incremented. An own entry that is a text, or an inherited function, is true for
  \<open>||\<close>, and adding 1 to it gives a text. Without an own entry and without an inherited
  name, the entry becomes 1. The assignment to \<open>__proto__\<close> calls the inherited setter,
  which ignores a text: no entry is made.\<close>

definition increment :: "count \<Rightarrow> count" where
  "increment v = (case v of Count c \<Rightarrow> Count (c + 1) | Text \<Rightarrow> Text)"

definition countSign :: "(string \<times> count) list \<Rightarrow> sample \<Rightarrow> (string \<times> count) list" where
  "countSign signCounts sample =
     (case map_of signCounts (s_sign sample) of
        Some c \<Rightarrow>
          map (\<lambda>(k, v). if k = s_sign sample then (k, increment c) else (k, v)) signCounts
      | None \<Rightarrow>
          if s_sign sample = ''__proto__'' then signCounts
          else if s_sign sample \<in> set inheritedNames then signCounts @ [(s_sign sample, Text)]
          else signCounts @ [(s_sign sample, Count 1)])"

definition countSigns :: "sample list \<Rightarrow> (string \<times> count) list" where
  "countSigns allSamples = foldl countSign [] allSamples"

text \<open>\<open>signCounts[sign] < 3\<close>, which is false of a text that is not a numeral, of a function
  and of \<open>undefined\<close>.\<close>

definition insufficient :: "(string \<times> count) list \<Rightarrow> string \<Rightarrow> bool" where
  "insufficient signCounts sign =
     (case map_of signCounts sign of Some (Count c) \<Rightarrow> c < 3 | _ \<Rightarrow> False)"

record train_request =
  r_modelId :: string
  r_samples :: "sample list option"

text \<open>The body of a response: an error message; the error that lists the signs with too few
  samples, with the counts; or the report of a training, with the updated model, the number
  of samples and the counts.\<close>

datatype ('net, 'stats, 'rep) body =
    ErrorMessage string
  | InsufficientSamples "string list" "(string \<times> count) list"
  | TrainingCompleted 'rep "('net, 'stats, 'rep) model option" nat "(string \<times> count) list"

record ('net, 'stats, 'rep) response =
  res_status :: nat
  res_body :: "('net, 'stats, 'rep) body"

definition errorMessage :: "error \<Rightarrow> string" where
  "errorMessage e = (case e of
       NoTrainingData \<Rightarrow> ''No training data available''
     | TooFewSigns \<Rightarrow> ''Need at least 2 different signs to train''
     | TypeError \<Rightarrow> ''TypeError''
     | LibraryError \<Rightarrow> ''brain.js error'')"

definition fail :: "nat \<Rightarrow> string \<Rightarrow> ('net, 'stats, 'rep) response" where
  "fail code msg = \<lparr>res_status = code, res_body = ErrorMessage msg\<rparr>"

text \<open>The route \<open>POST /train\<close>, as a function of the store and the request to the response
  and the new store. An empty \<open>modelId\<close> is a missing one. \<open>clock\<close> gives the times that the
  route reads, in order; \<open>report\<close> the made-up progress. An exception is answered with status
  500.\<close>

definition trainRoute ::
  "arith \<Rightarrow> ('net, 'stats) brain \<Rightarrow> ('net, 'stats, 'rep) runtime \<Rightarrow> (nat \<Rightarrow> string) \<Rightarrow> 'rep
     \<Rightarrow> ('net, 'stats, 'rep) store \<Rightarrow> train_request
     \<Rightarrow> ('net, 'stats, 'rep) response \<times> ('net, 'stats, 'rep) store" where
  "trainRoute a lib rt clock report st req =
     (case r_samples req of
        None \<Rightarrow> (fail 400 ''Invalid training data'', st)
      | Some samples \<Rightarrow>
     if r_modelId req = [] \<or> length samples = 0
     then (fail 400 ''Invalid training data'', st)
     else
     (case getModel rt st (r_modelId req) of
        None \<Rightarrow> (fail 404 ''Model not found'', st)
      | Some model \<Rightarrow>
     let st1 = snd (addSamplesToModel rt (clock 0) st (r_modelId req) samples) in
     (case getModel rt st1 (r_modelId req) of
        None \<Rightarrow> (fail 500 (errorMessage TypeError), st1)
      | Some updatedModel \<Rightarrow>
     let allSamples = samplesOf updatedModel in
     if length allSamples < 2
     then (fail 400 ''Need at least 2 samples to train'', st1)
     else
     let signCounts = countSigns allSamples;
         insufficientSigns = filter (insufficient signCounts) (objectKeys signCounts) in
     if length insufficientSigns > 0
     then (\<lparr>res_status = 400, res_body = InsufficientSamples insufficientSigns signCounts\<rparr>, st1)
     else
     (case trainClassifier lib (clock 1) (preprocessLandmarks a allSamples) of
        Inl e \<Rightarrow> (fail 500 (errorMessage e), st1)
      | Inr classifier \<Rightarrow>
          let (finalModel, st2) =
                updateModel rt (clock 3) st1 (r_modelId req)
                  (\<lambda>m. m\<lparr>m_classifier := Some classifier, m_trainingProgress := Some report,
                          m_trainedAt := Some (clock 2), m_sampleCounts := Some signCounts\<rparr>)
          in (\<lparr>res_status = 200,
               res_body = TrainingCompleted report finalModel (length allSamples) signCounts\<rparr>,
              st2)))))"
section \<open>Example inputs\<close>

definition origin :: landmark where
  "origin = \<lparr>lm_x = Fin 0, lm_y = Fin 0, lm_z = Fin 0\<rparr>"

text \<open>A hand whose 21 landmarks all lie at the origin.\<close>

definition zeroHand :: "landmark list" where
  "zeroHand = replicate 21 origin"

text \<open>A library whose networks answer every input with the same scores.\<close>

definition constLib :: "scores \<Rightarrow> (unit, unit) brain" where
  "constLib out =
     \<lparr>brain_train = (\<lambda>td. Inr ((), ())), brain_fromJSON = (\<lambda>json. Inr json),
      brain_run = (\<lambda>net fs. Inr out)\<rparr>"

definition untrainedModel :: "(unit, unit, unit) model" where
  "untrainedModel =
     \<lparr>m_samples = None, m_classifier = None, m_trainingProgress = None, m_trainedAt = None,
      m_sampleCounts = None, m_updatedAt = None\<rparr>"

definition trainedModel :: "(unit, unit, unit) model" where
  "trainedModel =
     untrainedModel\<lparr>m_classifier :=
       Some \<lparr>c_type = ''neural_network'', c_network = Some (),
             c_uniqueLabels = [''A'', ''B''], c_trained = True, c_timestamp = [],
             c_stats = (), c_featureLength = 102\<rparr>\<rparr>"

definition noSettings :: settings where
  "noSettings = \<lparr>st_confidenceThreshold = None\<rparr>"

section \<open>Notions and examples of the properties\<close>

text \<open>A confidence in the closed interval from 0.01 to 0.99.\<close>

definition inRange :: "number \<Rightarrow> bool" where
  "inRange v = (case v of Fin c \<Rightarrow> 0.01 \<le> c \<and> c \<le> 0.99 | _ \<Rightarrow> False)"

text \<open>The position of the first occurrence of a value in a list.\<close>

definition firstIndex :: "'a \<Rightarrow> 'a list \<Rightarrow> nat" where
  "firstIndex v xs = length (takeWhile (\<lambda>y. y \<noteq> v) xs)"

text \<open>Two samples, labelled B and A in this order.\<close>

definition twoLabels :: data where
  "twoLabels = \<lparr>d_features = [[Fin 0], [Fin 1]], d_labels = [''B'', ''A'']\<rparr>"


definition finiteScores :: "(string \<times> real) list \<Rightarrow> scores" where
  "finiteScores rs = map (\<lambda>(k, r). (k, Fin r)) rs"

text \<open>Two scores below half of the default threshold.\<close>

definition lowScores :: "(string \<times> real) list" where
  "lowScores = [(''A'', 0.2), (''B'', 0.1)]"

text \<open>A hand at the origin whose last landmark has NaN as its \<open>x\<close>.\<close>

definition nanHand :: "landmark list" where
  "nanHand = replicate 20 origin @ [\<lparr>lm_x = NaN, lm_y = Fin 0, lm_z = Fin 0\<rparr>]"

text \<open>The number of the samples of a sign.\<close>

definition sampleCount :: "string \<Rightarrow> sample list \<Rightarrow> nat" where
  "sampleCount k ss = length (filter (\<lambda>s. s_sign s = k) ss)"

text \<open>A runtime whose networks, statistics and progress are JSON values; a store with one
  model, which has no samples and is not trained; a clock; requests to train that model with
  one sample, with two samples of different signs, and with two samples whose signs are
  inherited names.\<close>

definition exampleRuntime :: "(unit, unit, unit) runtime" where
  "exampleRuntime =
     \<lparr>path_join = (\<lambda>modelId. ''models/'' @ modelId @ ''.json''), JSON_network = (\<lambda>v. v),
      JSON_stats = (\<lambda>v. v), JSON_progress = (\<lambda>v. v)\<rparr>"

definition oneModel :: "(unit, unit, unit) store" where
  "oneModel = Map.empty(''models/m1.json'' \<mapsto> untrainedModel)"

definition noClock :: "nat \<Rightarrow> string" where
  "noClock n = []"

definition sampleOf :: "string \<Rightarrow> sample" where
  "sampleOf k = \<lparr>s_landmarks = Some zeroHand, s_sign = k\<rparr>"

definition oneSample :: train_request where
  "oneSample = \<lparr>r_modelId = ''m1'', r_samples = Some [sampleOf ''A'']\<rparr>"

definition twoSamples :: train_request where
  "twoSamples = \<lparr>r_modelId = ''m1'', r_samples = Some [sampleOf ''A'', sampleOf ''B'']\<rparr>"

definition inheritedSigns :: train_request where
  "inheritedSigns =
     \<lparr>r_modelId = ''m1'', r_samples = Some [sampleOf ''constructor'', sampleOf ''toString'']\<rparr>"

text \<open>A landmark whose coordinates are finite; and 21 equal landmarks with an infinite \<open>x\<close>.\<close>

definition finiteLandmark :: "landmark \<Rightarrow> bool" where
  "finiteLandmark p = (isFinite (lm_x p) \<and> isFinite (lm_y p) \<and> isFinite (lm_z p))"

definition infHand :: "landmark list" where
  "infHand = replicate 21 \<lparr>lm_x = PInf, lm_y = Fin 0, lm_z = Fin 0\<rparr>"

text \<open>The Euclidean norm of a vector of reals; the landmark with given finite coordinates;
  and a hand at the origin except for its last landmark, which is at distance 1.\<close>

definition norm3 :: "real \<Rightarrow> real \<Rightarrow> real \<Rightarrow> real" where
  "norm3 x y z = sqrt (x * x + y * y + z * z)"

definition point :: "real \<Rightarrow> real \<Rightarrow> real \<Rightarrow> landmark" where
  "point x y z = \<lparr>lm_x = Fin x, lm_y = Fin y, lm_z = Fin z\<rparr>"

definition unitHand :: "landmark list" where
  "unitHand = replicate 20 origin @ [point 1 0 0]"

text \<open>A number and a landmark scaled by \<open>k\<close>, and a landmark scaled by \<open>k\<close> and then moved
  by the vector \<open>(tx, ty, tz)\<close>, in exact arithmetic.\<close>

definition scaleBy :: "real \<Rightarrow> number \<Rightarrow> number" where
  "scaleBy k v = jsMul Exact (Fin k) v"

definition scaleLandmark :: "real \<Rightarrow> landmark \<Rightarrow> landmark" where
  "scaleLandmark k p = \<lparr>lm_x = scaleBy k (lm_x p), lm_y = scaleBy k (lm_y p), lm_z = scaleBy k (lm_z p)\<rparr>"

definition scaleAndTranslate :: "real \<Rightarrow> real \<Rightarrow> real \<Rightarrow> real \<Rightarrow> landmark \<Rightarrow> landmark" where
  "scaleAndTranslate k tx ty tz p =
     \<lparr>lm_x = jsAdd Exact (scaleBy k (lm_x p)) (Fin tx),
      lm_y = jsAdd Exact (scaleBy k (lm_y p)) (Fin ty),
      lm_z = jsAdd Exact (scaleBy k (lm_z p)) (Fin tz)\<rparr>"

text \<open>Numbers that the arithmetic keeps exact: a finite number, of magnitude at most \<open>b\<close>
  when the arithmetic overflows; a landmark with such coordinates; and a finite number that is
  not negative, and at most \<open>b\<close> when the arithmetic overflows.\<close>

definition small :: "arith \<Rightarrow> real \<Rightarrow> number \<Rightarrow> bool" where
  "small a b v = (case v of Fin r \<Rightarrow> a = Exact \<or> \<bar>r\<bar> \<le> b | _ \<Rightarrow> False)"

definition smallLandmark :: "arith \<Rightarrow> real \<Rightarrow> landmark \<Rightarrow> bool" where
  "smallLandmark a b p = (small a b (lm_x p) \<and> small a b (lm_y p) \<and> small a b (lm_z p))"

definition smallSquare :: "arith \<Rightarrow> real \<Rightarrow> number \<Rightarrow> bool" where
  "smallSquare a b v = (case v of Fin r \<Rightarrow> 0 \<le> r \<and> (a = Exact \<or> r \<le> b) | _ \<Rightarrow> False)"

text \<open>The bound on the coordinates of a sample under which no step of
  \<open>normalizeLandmarks\<close> and \<open>extractFeatures\<close> overflows; and a hand at the origin whose
  last landmark has a finite \<open>x\<close> with an infinite square.\<close>

definition COORDINATE_BOUND :: real where
  "COORDINATE_BOUND = 2 ^ 500"

definition huge :: real where
  "huge = 2 ^ 600"

definition hugeHand :: "landmark list" where
  "hugeHand = replicate 20 origin @ [point huge 0 0]"

text \<open>A hand at the origin whose last landmark has an \<open>x\<close> with a square below the normal
  range of the doubles.\<close>

definition tiny :: real where
  "tiny = 9 * 2 powi (- 540)"

definition tinyHand :: "landmark list" where
  "tinyHand = replicate 20 origin @ [point tiny 0 0]"

text \<open>An offset from the wrist is moderate when it is zero, or of a magnitude from \<open>2 ^ -500\<close>
  to \<open>2 ^ 500\<close>: then no step of \<open>normalizeLandmarks\<close> overflows or leaves the normal range. A
  sample is moderate when the offsets of all its landmarks from the wrist are, taken in exact
  arithmetic.\<close>

definition moderate :: "real \<Rightarrow> bool" where
  "moderate r = (r = 0 \<or> 2 powi (- 500) \<le> \<bar>r\<bar> \<and> \<bar>r\<bar> \<le> 2 powi 500)"

definition moderateNumber :: "number \<Rightarrow> bool" where
  "moderateNumber v = (case v of Fin r \<Rightarrow> moderate r | _ \<Rightarrow> False)"

definition moderateLandmark :: "landmark \<Rightarrow> bool" where
  "moderateLandmark p =
     (moderateNumber (lm_x p) \<and> moderateNumber (lm_y p) \<and> moderateNumber (lm_z p))"

definition moderateSample :: "landmark list \<Rightarrow> bool" where
  "moderateSample lms = list_all moderateLandmark (normalized Exact lms)"

text \<open>The tolerance of the comparisons of rounded results, 16 times the unit roundoff; numbers
  and landmarks that differ by at most a tolerance.\<close>

definition TOLERANCE :: real where
  "TOLERANCE = 1 / 2 ^ 49"



text \<open>The unit roundoff, the greatest relative error of rounding a number of the normal range.
  A computed number \<open>x\<close> is accurate to \<open>n\<close> roundings of a number \<open>y\<close> that is not negative
  when it lies within the factors \<open>(1 - roundoff) ^ n\<close> and \<open>(1 + roundoff) ^ n\<close> of it; a
  number is in the range from \<open>l\<close> to \<open>h\<close> when it is zero or from \<open>2 ^ l\<close> on, and at most
  \<open>2 ^ h\<close>.\<close>

definition roundoff :: real where
  "roundoff = 1 / 2 ^ 53"

definition accurate :: "nat \<Rightarrow> real \<Rightarrow> real \<Rightarrow> bool" where
  "accurate n x y = ((1 - roundoff) ^ n * y \<le> x \<and> x \<le> (1 + roundoff) ^ n * y)"

definition ranged :: "int \<Rightarrow> int \<Rightarrow> real \<Rightarrow> bool" where
  "ranged l h y = (0 \<le> y \<and> (y = 0 \<or> 2 powi l \<le> y) \<and> y \<le> 2 powi h)"

text \<open>A computed coordinate \<open>x\<close> agrees with the exact coordinate \<open>e\<close> when it has the same
  sign and its magnitude is that of \<open>e\<close> up to six roundings: two of the numerator and four
  of the scale.\<close>

definition agree :: "real \<Rightarrow> real \<Rightarrow> bool" where
  "agree x e = (sgn x = sgn e
     \<and> (1 - roundoff) ^ 2 * \<bar>e\<bar> \<le> (1 + roundoff) ^ 4 * \<bar>x\<bar>
     \<and> (1 - roundoff) ^ 4 * \<bar>x\<bar> \<le> (1 + roundoff) ^ 2 * \<bar>e\<bar>)"

definition agreeNumber :: "number \<Rightarrow> number \<Rightarrow> bool" where
  "agreeNumber u v =
     (case u of Fin x \<Rightarrow> (case v of Fin e \<Rightarrow> agree x e | _ \<Rightarrow> False) | _ \<Rightarrow> False)"

definition agreeLandmark :: "landmark \<Rightarrow> landmark \<Rightarrow> bool" where
  "agreeLandmark p q =
     (agreeNumber (lm_x p) (lm_x q) \<and> agreeNumber (lm_y p) (lm_y q)
      \<and> agreeNumber (lm_z p) (lm_z q))"

section \<open>Arithmetic facts\<close>

lemma MAX_VALUE_pos: "0 < MAX_VALUE"
  by (simp add: MAX_VALUE_def)

lemma fl_in_range: "\<bar>r\<bar> \<le> MAX_VALUE \<Longrightarrow> fl a r = Fin r"
  by (cases a) (auto simp: fl_def)

lemma fl_Exact [simp]: "fl Exact r = Fin r"
  by (simp add: fl_def)

lemma fl_zero [simp]: "fl a 0 = Fin 0"
  using MAX_VALUE_pos by (simp add: fl_in_range)

lemma isNaN_fl [simp]: "\<not> isNaN (fl a r)"
  by (cases a) (auto simp: fl_def)

lemma fl_cases:
  "fl a r = Fin r \<or> fl a r = PInf \<and> MAX_VALUE < r \<or> fl a r = NInf \<and> r < - MAX_VALUE"
  by (cases a) (auto simp: fl_def)

lemma MAX_VALUE_ge_1: "1 \<le> MAX_VALUE"
proof -
  have "(2::real) ^ 971 \<le> 2 ^ 1023"
    by (rule power_increasing) simp_all
  moreover have "(1::real) \<le> 2 ^ 1023"
    by (rule one_le_power) simp
  moreover have "(2::real) ^ 1024 = 2 * 2 ^ 1023"
    by simp
  ultimately show ?thesis
    unfolding MAX_VALUE_def by linarith
qed

lemma fl_nonneg: "0 \<le> r \<Longrightarrow> fl a r = PInf \<or> fl a r = Fin r"
  using fl_cases [of a r] MAX_VALUE_pos by auto

lemma fl_one [simp]: "fl a 1 = Fin 1"
  using fl_in_range [of 1 a] MAX_VALUE_ge_1 by simp

lemma Math_max2_simps [simp]:
  "Math_max2 (Fin p) (Fin q) = Fin (max p q)"
  "Math_max2 NInf (Fin q) = Fin q"
  "Math_max2 NInf PInf = PInf"
  "Math_max2 PInf (Fin q) = PInf"
  "Math_max2 PInf PInf = PInf"
  "Math_max2 (Fin p) PInf = PInf"
  by (auto simp: Math_max2_def)

lemma isFinite_iff: "isFinite v \<longleftrightarrow> (\<exists>r. v = Fin r)"
  by (cases v) auto

section \<open>The features of the example hands\<close>

lemma nth_zeroHand: "i < 21 \<Longrightarrow> zeroHand ! i = origin"
  by (simp add: zeroHand_def)

lemma normalized_zeroHand: "normalized a zeroHand = zeroHand"
  by (simp add: zeroHand_def numeral_eq_Suc translate_def origin_def jsSub_def)

lemma originDistance_origin: "originDistance a origin = Fin 0"
  by (simp add: originDistance_def origin_def)

lemma maxDistance_zeroHand: "maxDistance a zeroHand = NInf"
  by (simp add: maxDistance_def normalized_zeroHand)
     (simp add: zeroHand_def originDistance_origin jsGt_def Math_max_def)

lemma normalizeLandmarks_zeroHand: "normalizeLandmarks a zeroHand = zeroHand"
  by (simp add: normalizeLandmarks_def maxDistance_zeroHand normalized_zeroHand)

lemma euclideanDistance_origin: "euclideanDistance a (coords origin) (coords origin) = Fin 0"
  by (simp add: euclideanDistance_def coords_def origin_def jsSub_def)

lemma calculateAngle_origin: "calculateAngle a origin origin p = Fin 0"
  by (simp add: calculateAngle_def translate_def originDistance_def origin_def jsSub_def Let_def)

lemma rawCoordinates_zeroHand: "rawCoordinates zeroHand = replicate 63 (Fin 0)"
  by (simp add: rawCoordinates_def zeroHand_def coords_def origin_def numeral_eq_Suc)

lemma tipDistances_zeroHand: "tipDistances a zeroHand = replicate 5 (Fin 0)"
  by (simp add: tipDistances_def fingerTips_def fingerBases_def nth_zeroHand
      euclideanDistance_origin upt_rec numeral_eq_Suc)

lemma palmDistances_zeroHand: "palmDistances a zeroHand = replicate 15 (Fin 0)"
  by (simp add: palmDistances_def palmPoints_def nth_zeroHand euclideanDistance_origin upt_rec
      numeral_eq_Suc)

lemma jointAngles_zeroHand: "jointAngles a zeroHand = replicate 19 (Fin 0)"
  by (simp add: jointAngles_def zeroHand_def calculateAngle_origin upt_rec numeral_eq_Suc)

lemma extractFeatures_zeroHand:
  "extractFeatures a (normalizeLandmarks a zeroHand) = Inr (replicate 102 (Fin 0))"
proof -
  have "length zeroHand = 21"
    by (simp add: zeroHand_def)
  moreover have "replicate 63 (Fin 0) @ replicate 5 (Fin 0) @ replicate 15 (Fin 0)
      @ replicate 19 (Fin 0) = replicate 102 (Fin 0)"
    by (simp flip: replicate_add)
  ultimately show ?thesis
    by (simp add: extractFeatures_def normalizeLandmarks_zeroHand rawCoordinates_zeroHand
        tipDistances_zeroHand palmDistances_zeroHand jointAngles_zeroHand finiteFeature_def)
qed

section \<open>The practice feedback against the decision table\<close>

text \<open>The route decides as the table does, except when the labels are equal and the
  confidence is at least 0.4 and below 0.5.\<close>

lemma practiceFeedback_agrees_elsewhere:
  "\<not> (sg = e \<and> 0.4 \<le> c \<and> c < 0.5) \<Longrightarrow>
   f_status (practiceFeedback \<lparr>p_sign = sg, p_confidence = Fin c, p_allPredictions = ap\<rparr> e)
     = status_name (classify_spec sg e c)"
  by (auto simp add: practiceFeedback_def classify_spec_def status_name_def jsGe_def Let_def)

text \<open>
  C4. The practice feedback is the decision table of the specification: equal labels with a
  confidence of at least 0.7 give success, equal labels with a confidence from 0.5 to below
  0.7 give partial, unequal labels with a confidence of at least 0.4 give mismatch, and
  everything else, equal labels below 0.5 included, gives unclear. The route does not: its
  third branch tests the confidence alone. For the expected sign A, a prediction of A with
  confidence 0.45 gets the status \<open>incorrect\<close>, where the table gives unclear.
\<close>

theorem practiceFeedback_equal_labels_below_half:
  "f_status (practiceFeedback
      \<lparr>p_sign = ''A'', p_confidence = Fin 0.45, p_allPredictions = None\<rparr> ''A'') = ''incorrect''
   \<and> status_name (classify_spec ''A'' ''A'' 0.45) = ''unclear''"
  by (simp add: practiceFeedback_def classify_spec_def status_name_def jsGe_def Let_def)

section \<open>The confidence of a prediction\<close>

lemma clamp_inRange:
  "\<not> isNaN v \<Longrightarrow> inRange (Math_min2 (Fin (99 / 100)) (Math_max2 (Fin (1 / 100)) v))"
  by (cases v) (auto simp: inRange_def Math_min2_def Math_max2_def)

lemma foldl_pickMax_not_NaN:
  "\<not> isNaN (fst acc) \<Longrightarrow> \<not> isNaN (fst (foldl pickMax acc scores))"
proof (induction scores arbitrary: acc)
  case Nil
  then show ?case by simp
next
  case (Cons e es)
  have "\<not> isNaN (fst (pickMax acc e))"
    using Cons.prems by (cases "snd e"; cases "fst acc") (auto simp: pickMax_def jsGt_def)
  then show ?case
    using Cons.IH by simp
qed

lemma jsMul_half_not_NaN: "\<not> isNaN v \<Longrightarrow> \<not> isNaN (jsMul a v (Fin (1 / 2)))"
  by (cases v) auto

lemma extractFeatures_finite:
  "extractFeatures a lms = Inr fs \<Longrightarrow> \<not> list_ex (\<lambda>f. isNaN f \<or> \<not> isFinite f) fs"
  by (auto simp: extractFeatures_def list_ex_iff finiteFeature_def split: if_splits)

text \<open>Without an artifact, that is without a classifier or without its network, the prediction
  is \<open>UNKNOWN\<close> with confidence 0. The specification states this result apart from the bound
  on the confidence.\<close>

lemma predictSign_no_artifact:
  "m_classifier model = None \<or> (\<exists>c. m_classifier model = Some c \<and> c_network c = None) \<Longrightarrow>
   predictSign a lib model lms st = sentinel ''UNKNOWN''"
  by (auto simp: predictSign_def)

text \<open>
  C3. For every model artifact and every feature vector the confidence of the prediction lies
  between 0.01 and 0.99: whenever the model has a classifier whose network loads, the
  landmarks give a feature vector that is not empty, and the network runs on it, whatever
  scores the network returns (NaN and the infinities included) and whatever the settings.
\<close>

theorem predictSign_confidence:
  assumes "m_classifier model = Some c" and "c_network c = Some json"
    and "brain_fromJSON lib json = Inr net"
    and "extractFeatures a (normalizeLandmarks a lms) = Inr fs" and "fs \<noteq> []"
    and "brain_run lib net fs = Inr scores"
  shows "inRange (p_confidence (predictSign a lib model lms st))"
proof -
  have n: "\<not> isNaN (fst (foldl pickMax (Fin 0, ''UNKNOWN'') scores))"
    by (rule foldl_pickMax_not_NaN) simp
  have f: "\<not> list_ex (\<lambda>f. isNaN f \<or> \<not> isFinite f) fs"
    using assms(4) by (rule extractFeatures_finite)
  show ?thesis
    using assms f by (simp add: predictSign_def Let_def clamp_inRange n jsMul_half_not_NaN)
qed

theorem predictSign_confidence_witness:
  "inRange (p_confidence (predictSign Exact (constLib [(''A'', Fin 0.2), (''B'', Fin 0.9)])
      trainedModel zeroHand noSettings))"
  using predictSign_confidence [where model = trainedModel and json = "()" and net = "()"
      and lib = "constLib [(''A'', Fin 0.2), (''B'', Fin 0.9)]" and a = Exact and lms = zeroHand
      and fs = "replicate 102 (Fin 0)" and scores = "[(''A'', Fin 0.2), (''B'', Fin 0.9)]"
      and st = noSettings]
  by (simp add: trainedModel_def untrainedModel_def constLib_def extractFeatures_zeroHand)
section \<open>The labels of a trained classifier\<close>

lemma firstIndex_member:
  "p \<in> set pre \<Longrightarrow> firstIndex p (pre @ ys) = firstIndex p pre \<and> firstIndex p pre < length pre"
  unfolding firstIndex_def by (induction pre) auto

lemma firstIndex_first: "v \<notin> set pre \<Longrightarrow> firstIndex v (pre @ v # ys) = length pre"
  unfolding firstIndex_def by (induction pre) auto

text \<open>Adding the rest \<open>ys\<close> of a list to the set of its prefix \<open>pre\<close>: the elements stay
  distinct and in the order of their first occurrences.\<close>

lemma foldl_setAdd:
  "distinct acc \<Longrightarrow> set acc = set pre
   \<Longrightarrow> sorted_wrt (\<lambda>p q. firstIndex p (pre @ ys) < firstIndex q (pre @ ys)) acc
   \<Longrightarrow> distinct (foldl setAdd acc ys) \<and> set (foldl setAdd acc ys) = set (pre @ ys)
      \<and> sorted_wrt (\<lambda>p q. firstIndex p (pre @ ys) < firstIndex q (pre @ ys))
           (foldl setAdd acc ys)"
proof (induction ys arbitrary: acc pre)
  case Nil
  then show ?case by simp
next
  case (Cons v ys)
  let ?before = "\<lambda>p q. firstIndex p ((pre @ [v]) @ ys) < firstIndex q ((pre @ [v]) @ ys)"
  have d: "distinct (setAdd acc v)"
    using Cons.prems(1) by (simp add: setAdd_def)
  have s: "set (setAdd acc v) = set (pre @ [v])"
    using Cons.prems(2) by (auto simp: setAdd_def)
  have o: "sorted_wrt ?before (setAdd acc v)"
  proof (cases "v \<in> set acc")
    case True
    then show ?thesis
      using Cons.prems(3) by (simp add: setAdd_def)
  next
    case False
    then have new: "v \<notin> set pre"
      using Cons.prems(2) by simp
    have "\<forall>p\<in>set acc. firstIndex p (pre @ v # ys) < firstIndex v (pre @ v # ys)"
      using Cons.prems(2) firstIndex_member [of _ pre "v # ys"] firstIndex_first [OF new, of ys]
      by auto
    then show ?thesis
      using False Cons.prems(3) by (simp add: setAdd_def sorted_wrt_append)
  qed
  show ?case
    using Cons.IH [OF d s o] by simp
qed

lemma newSet_first_occurrences:
  "distinct (newSet xs) \<and> set (newSet xs) = set xs
   \<and> sorted_wrt (\<lambda>p q. firstIndex p xs < firstIndex q xs) (newSet xs)"
  using foldl_setAdd [of "[]" "[]" xs] by (simp add: newSet_def)

text \<open>
  C8, as the claim states it: the artifact holds the labels of the training samples as a
  sorted list without duplicates. It fails for two samples labelled B and A in this order:
  the artifact lists B before A.
\<close>

theorem trainClassifier_labels_unsorted:
  "trainClassifier (constLib []) ''t'' twoLabels =
     Inr \<lparr>c_type = ''neural_network'', c_network = Some (), c_uniqueLabels = [''B'', ''A''],
          c_trained = True, c_timestamp = ''t'', c_stats = (), c_featureLength = 1\<rparr>
   \<and> \<not> sorted [''B'', ''A'']"
  by (simp add: trainClassifier_def twoLabels_def newSet_def setAdd_def constLib_def)

text \<open>
  C8, amended. The artifact that \<open>trainClassifier\<close> returns holds the labels of the training
  samples without duplicates, in the order of their first occurrences, together with the
  serialized network and the statistics that the training gave.
\<close>

theorem trainClassifier_artifact:
  assumes "trainClassifier lib now d = Inr c"
  shows "distinct (c_uniqueLabels c) \<and> set (c_uniqueLabels c) = set (d_labels d)
    \<and> sorted_wrt (\<lambda>p q. firstIndex p (d_labels d) < firstIndex q (d_labels d)) (c_uniqueLabels c)
    \<and> (\<exists>net. c_network c = Some net
          \<and> brain_train lib (trainingData d) = Inr (net, c_stats c))"
proof -
  from assms obtain net stats where t: "brain_train lib (trainingData d) = Inr (net, stats)"
    and c: "c = \<lparr>c_type = ''neural_network'', c_network = Some net,
                 c_uniqueLabels = newSet (d_labels d), c_trained = True, c_timestamp = now,
                 c_stats = stats, c_featureLength = length (d_features d ! 0)\<rparr>"
    by (auto simp: trainClassifier_def Let_def split: if_splits sum.splits prod.splits)
  show ?thesis
    using newSet_first_occurrences [of "d_labels d"] t by (simp add: c)
qed

theorem trainClassifier_artifact_witness:
  "distinct [''B'', ''A''] \<and> set [''B'', ''A''] = set (d_labels twoLabels)
   \<and> sorted_wrt (\<lambda>p q. firstIndex p (d_labels twoLabels) < firstIndex q (d_labels twoLabels))
        [''B'', ''A'']
   \<and> brain_train (constLib []) (trainingData twoLabels) = Inr ((), ())"
proof -
  have "trainClassifier (constLib []) ''t'' twoLabels =
     Inr \<lparr>c_type = ''neural_network'', c_network = Some (), c_uniqueLabels = [''B'', ''A''],
          c_trained = True, c_timestamp = ''t'', c_stats = (), c_featureLength = 1\<rparr>"
    by (simp add: trainClassifier_def twoLabels_def newSet_def setAdd_def constLib_def)
  from trainClassifier_artifact [OF this] show ?thesis
    by simp
qed

section \<open>The uncertain prediction\<close>







section \<open>A landmark that is not a number\<close>

lemma nth_nanHand:
  "i < 20 \<Longrightarrow> nanHand ! i = origin"
  "nanHand ! 20 = \<lparr>lm_x = NaN, lm_y = Fin 0, lm_z = Fin 0\<rparr>"
  "length nanHand = 21"
  by (simp_all add: nanHand_def nth_append)

lemma normalized_nanHand: "normalized a nanHand = nanHand"
  by (simp add: nanHand_def numeral_eq_Suc translate_def origin_def jsSub_def)

lemma originDistance_nan:
  "originDistance a \<lparr>lm_x = NaN, lm_y = Fin 0, lm_z = Fin 0\<rparr> = NaN"
  by (simp add: originDistance_def)

lemma maxDistance_nanHand: "maxDistance a nanHand = NInf"
  by (simp add: maxDistance_def normalized_nanHand)
     (simp add: nanHand_def originDistance_origin originDistance_nan jsGt_def Math_max_def)

lemma normalizeLandmarks_nanHand: "normalizeLandmarks a nanHand = nanHand"
  by (simp add: normalizeLandmarks_def maxDistance_nanHand normalized_nanHand)

lemma euclideanDistance_nan:
  "euclideanDistance a (coords \<lparr>lm_x = NaN, lm_y = Fin 0, lm_z = Fin 0\<rparr>) (coords origin) = NaN"
  by (simp add: euclideanDistance_def coords_def origin_def jsSub_def)

lemma rawCoordinates_nanHand:
  "rawCoordinates nanHand = replicate 60 (Fin 0) @ [NaN, Fin 0, Fin 0]"
  by (simp add: rawCoordinates_def nanHand_def coords_def origin_def numeral_eq_Suc)

lemma tipDistances_nanHand: "tipDistances a nanHand = [Fin 0, Fin 0, Fin 0, Fin 0, NaN]"
  by (simp add: tipDistances_def fingerTips_def fingerBases_def nth_nanHand
      euclideanDistance_origin euclideanDistance_nan upt_rec)

lemma palmDistances_nanHand: "palmDistances a nanHand = replicate 15 (Fin 0)"
  by (simp add: palmDistances_def palmPoints_def nth_nanHand euclideanDistance_origin upt_rec
      numeral_eq_Suc)

lemma jointAngles_nanHand: "jointAngles a nanHand = replicate 19 (Fin 0)"
  by (simp add: jointAngles_def nth_nanHand calculateAngle_origin upt_rec numeral_eq_Suc)

lemma extractFeatures_nanHand:
  "extractFeatures a (normalizeLandmarks a nanHand) = Inr (replicate 100 (Fin 0))"
proof -
  have "filter finiteFeature (replicate 60 (Fin 0) @ [NaN, Fin 0, Fin 0] @ [Fin 0, Fin 0, Fin 0, Fin 0, NaN]
     @ replicate 15 (Fin 0) @ replicate 19 (Fin 0)) = replicate 60 (Fin 0) @ replicate 2 (Fin 0) @ replicate 4 (Fin 0)
     @ replicate 15 (Fin 0) @ replicate 19 (Fin 0)"
    by (simp add: finiteFeature_def numeral_eq_Suc)
  also have "\<dots> = replicate 100 (Fin 0)"
    by (simp flip: replicate_add)
  finally show ?thesis
    by (simp add: extractFeatures_def normalizeLandmarks_nanHand rawCoordinates_nanHand
        tipDistances_nanHand palmDistances_nanHand jointAngles_nanHand nth_nanHand)
qed

text \<open>
  C1. A list of 21 landmarks with a coordinate that is NaN or infinite is discarded: feature
  extraction gives an invalid result, never a feature vector shorter than 102. The code does
  not: \<open>extractFeatures\<close> filters the values that are not finite out of its result, so the
  tests for such values in \<open>predictSign\<close> and \<open>preprocessLandmarks\<close> never find one. For
  the hand at the origin whose last landmark has NaN as its \<open>x\<close>, the result is a vector of
  100 values, \<open>predictSign\<close> runs the network on it, and \<open>preprocessLandmarks\<close> keeps it as
  a training sample.
\<close>

theorem extractFeatures_nan_landmark:
  "extractFeatures Binary64 (normalizeLandmarks Binary64 nanHand) = Inr (replicate 100 (Fin 0))
   \<and> predictSign Binary64 (constLib (finiteScores lowScores)) trainedModel nanHand noSettings
       = \<lparr>p_sign = ''UNCERTAIN'', p_confidence = Fin 0.1,
          p_allPredictions = Some (finiteScores lowScores)\<rparr>
   \<and> preprocessLandmarks Binary64 [\<lparr>s_landmarks = Some nanHand, s_sign = ''A''\<rparr>]
       = \<lparr>d_features = [replicate 100 (Fin 0)], d_labels = [''A'']\<rparr>"
  by (simp add: extractFeatures_nanHand predictSign_def trainedModel_def untrainedModel_def
      constLib_def Let_def list_ex_iff finiteScores_def lowScores_def pickMax_def jsGt_def
      noSettings_def fl_def MAX_VALUE_def Math_max2_def Math_min2_def preprocessLandmarks_def
      preprocessSample_def nth_nanHand list_all_iff finiteFeature_def)

section \<open>The training route\<close>

lemma map_of_None_iff: "map_of al k = None \<longleftrightarrow> k \<notin> fst ` set al"
  by (simp add: map_of_eq_None_iff)

lemma countSign_keys:
  assumes d: "distinct (map fst acc)" and n: "s_sign s \<notin> set inheritedNames"
  shows "distinct (map fst (countSign acc s))
     \<and> fst ` set (countSign acc s) = insert (s_sign s) (fst ` set acc)"
proof (cases "map_of acc (s_sign s)")
  case None
  have p: "s_sign s \<noteq> ''__proto__''"
    using n by (auto simp: inheritedNames_def)
  have "s_sign s \<notin> fst ` set acc"
    using None by (simp add: map_of_eq_None_iff)
  then show ?thesis
    using d n p by (simp add: countSign_def None)
next
  case (Some c)
  let ?f = "\<lambda>(k, v). if k = s_sign s then (k, increment c) else (k, v)"
  have m: "map fst (map ?f acc) = map fst acc"
    by (induction acc) auto
  have cs: "countSign acc s = map ?f acc"
    by (simp add: countSign_def Some)
  have 1: "distinct (map fst (countSign acc s))"
    unfolding cs m by (rule d)
  have "set (map fst (countSign acc s)) = set (map fst acc)"
    unfolding cs m by (rule refl)
  then have 2: "fst ` set (countSign acc s) = fst ` set acc"
    by (simp only: set_map)
  have "s_sign s \<in> fst ` set acc"
    using Some by (metis map_of_eq_None_iff option.distinct(1))
  then show ?thesis
    using 1 2 by (simp add: insert_absorb)
qed

lemma map_of_bump:
  "map_of (map (\<lambda>(k, v). if k = k0 then (k, c) else (k, v)) acc) k
     = (if k = k0 then (case map_of acc k of None \<Rightarrow> None | Some v \<Rightarrow> Some c) else map_of acc k)"
  by (induction acc) auto

lemma countSign_lookup:
  assumes "s_sign s \<notin> set inheritedNames"
  shows "map_of (countSign acc s) k =
     (if k = s_sign s then Some (case map_of acc k of None \<Rightarrow> Count 1 | Some c \<Rightarrow> increment c)
      else map_of acc k)"
proof -
  have p: "s_sign s \<noteq> ''__proto__''"
    using assms by (auto simp: inheritedNames_def)
  show ?thesis
    using assms p
    by (cases "map_of acc (s_sign s)")
       (auto simp: countSign_def map_of_bump map_add_def split: option.splits)
qed

lemma sampleCount_snoc:
  "sampleCount k (ss @ [s]) = (if s_sign s = k then sampleCount k ss + 1 else sampleCount k ss)"
  by (simp add: sampleCount_def)

lemma sampleCount_zero: "k \<notin> s_sign ` set ss \<Longrightarrow> sampleCount k ss = 0"
  by (auto simp: sampleCount_def filter_empty_conv)

lemma countSigns_facts:
  "\<forall>s\<in>set ss. s_sign s \<notin> set inheritedNames \<Longrightarrow>
   distinct (map fst (countSigns ss))
   \<and> fst ` set (countSigns ss) = s_sign ` set ss
   \<and> (\<forall>k. map_of (countSigns ss) k =
         (if k \<in> s_sign ` set ss then Some (Count (sampleCount k ss)) else None))"
proof (induction ss rule: rev_induct)
  case Nil
  then show ?case by (simp add: countSigns_def)
next
  case (snoc s ss)
  have n: "s_sign s \<notin> set inheritedNames"
    using snoc.prems by simp
  have ih: "distinct (map fst (countSigns ss))"
    "fst ` set (countSigns ss) = s_sign ` set ss"
    "\<And>k. map_of (countSigns ss) k =
         (if k \<in> s_sign ` set ss then Some (Count (sampleCount k ss)) else None)"
    using snoc.IH snoc.prems by simp_all
  have step: "countSigns (ss @ [s]) = countSign (countSigns ss) s"
    by (simp add: countSigns_def)
  note k = countSign_keys [OF ih(1) n]
  have 1: "distinct (map fst (countSigns (ss @ [s])))"
    unfolding step using k by simp
  have 2: "fst ` set (countSigns (ss @ [s])) = s_sign ` set (ss @ [s])"
    unfolding step using k ih(2) by auto
  have 3: "map_of (countSigns (ss @ [s])) k =
      (if k \<in> s_sign ` set (ss @ [s]) then Some (Count (sampleCount k (ss @ [s]))) else None)" for k
    unfolding step countSign_lookup [OF n] ih(3) sampleCount_snoc
    by (auto simp: increment_def sampleCount_zero)
  show ?case
    using 1 2 3 by blast
qed

lemma set_objectKeys: "set (objectKeys al) = fst ` set al"
  by (auto simp: objectKeys_def Let_def)

lemma distinct_objectKeys: "distinct (map fst al) \<Longrightarrow> distinct (objectKeys al)"
  by (auto simp: objectKeys_def Let_def)

lemma insufficientSigns:
  assumes "\<forall>s\<in>set ss. s_sign s \<notin> set inheritedNames"
  shows "set (filter (insufficient (countSigns ss)) (objectKeys (countSigns ss)))
     = {k \<in> s_sign ` set ss. sampleCount k ss < 3}"
  using countSigns_facts [OF assms] by (auto simp: set_objectKeys insufficient_def)

text \<open>Writing a sample as JSON keeps its sign.\<close>

lemma s_sign_jsonSample [simp]: "s_sign (jsonSample s) = s_sign s"
  by (simp add: jsonSample_def)

lemma sampleCount_jsonSample: "sampleCount k (map jsonSample ss) = sampleCount k ss"
  by (simp add: sampleCount_def filter_map comp_def)

lemma signs_jsonSample: "s_sign ` jsonSample ` set ss = s_sign ` set ss"
  by (simp add: image_image)

lemma addSamples_store:
  assumes "st (path_join rt k) = Some model"
  shows "snd (addSamplesToModel rt now st k new)
     = st(path_join rt k \<mapsto>
          jsonModel rt (model\<lparr>m_samples := Some (samplesOf model @ new), m_updatedAt := Some now\<rparr>))"
  using assms by (simp add: addSamplesToModel_def updateModel_def getModel_def Let_def)

lemma preprocessLandmarks_zeroHands:
  "preprocessLandmarks a [\<lparr>s_landmarks = Some zeroHand, s_sign = k\<rparr>,
      \<lparr>s_landmarks = Some zeroHand, s_sign = l\<rparr>]
     = \<lparr>d_features = [replicate 102 (Fin 0), replicate 102 (Fin 0)], d_labels = [k, l]\<rparr>"
  by (simp add: preprocessLandmarks_def preprocessSample_def extractFeatures_zeroHand
      zeroHand_def [THEN arg_cong, of length] finiteFeature_def list_all_iff)

lemma jsonSample_zeroHand:
  "jsonSample \<lparr>s_landmarks = Some zeroHand, s_sign = k\<rparr> = \<lparr>s_landmarks = Some zeroHand, s_sign = k\<rparr>"
  by (simp add: jsonSample_def zeroHand_def jsonLandmark_def origin_def jsonNumber_def)

text \<open>
  C10, as the claim states it: when a sign among the accumulated samples has fewer than 3
  samples, the training route answers with the error that lists every such sign, and attaches
  no classifier. It fails in two ways. When the model has one sample in all, the answer is
  the error that asks for two samples, and names no sign. When the signs are names that every
  object inherits, here one sample of \<open>constructor\<close> and one of \<open>toString\<close>, their counts are
  texts, which are not below 3: the route trains, answers with status 200 and attaches the
  classifier.
\<close>

theorem trainRoute_signs_not_listed:
  "sampleCount ''A'' [sampleOf ''A''] < 3
   \<and> fst (trainRoute Exact (constLib []) exampleRuntime noClock () oneModel oneSample)
       = \<lparr>res_status = 400, res_body = ErrorMessage ''Need at least 2 samples to train''\<rparr>
   \<and> sampleCount ''constructor'' [sampleOf ''constructor'', sampleOf ''toString''] < 3
   \<and> res_status (fst (trainRoute Exact (constLib []) exampleRuntime noClock () oneModel
         inheritedSigns)) = 200
   \<and> map_option m_classifier
       (snd (trainRoute Exact (constLib []) exampleRuntime noClock () oneModel inheritedSigns)
          ''models/m1.json'')
       = Some (Some \<lparr>c_type = ''neural_network'', c_network = Some (),
                     c_uniqueLabels = [''constructor'', ''toString''], c_trained = True,
                     c_timestamp = [], c_stats = (), c_featureLength = 102\<rparr>)"
proof -
  have one: "fst (trainRoute Exact (constLib []) exampleRuntime noClock () oneModel oneSample)
       = \<lparr>res_status = 400, res_body = ErrorMessage ''Need at least 2 samples to train''\<rparr>"
    by (simp add: trainRoute_def oneSample_def oneModel_def addSamplesToModel_def updateModel_def
        getModel_def samplesOf_def untrainedModel_def fail_def sampleOf_def Let_def
        exampleRuntime_def jsonModel_def)
  have counts: "countSigns [sampleOf ''constructor'', sampleOf ''toString'']
      = [(''constructor'', Text), (''toString'', Text)]"
    by (simp add: countSigns_def countSign_def sampleOf_def inheritedNames_def)
  have none: "filter (insufficient [(''constructor'', Text), (''toString'', Text)])
      (objectKeys [(''constructor'', Text), (''toString'', Text)]) = []"
    by (simp add: objectKeys_def insufficient_def isArrayIndex_def isDigit_def)
  have trained: "trainClassifier (constLib []) []
      \<lparr>d_features = [replicate 102 (Fin 0), replicate 102 (Fin 0)],
       d_labels = [''constructor'', ''toString'']\<rparr>
      = Inr \<lparr>c_type = ''neural_network'', c_network = Some (),
             c_uniqueLabels = [''constructor'', ''toString''], c_trained = True,
             c_timestamp = [], c_stats = (), c_featureLength = 102\<rparr>"
    by (simp add: trainClassifier_def newSet_def setAdd_def constLib_def Let_def)
  have two: "trainRoute Exact (constLib []) exampleRuntime noClock () oneModel inheritedSigns
      = (\<lparr>res_status = 200,
          res_body = TrainingCompleted ()
            (Some (untrainedModel\<lparr>m_samples := Some [sampleOf ''constructor'', sampleOf ''toString''],
                m_classifier := Some \<lparr>c_type = ''neural_network'', c_network = Some (),
                  c_uniqueLabels = [''constructor'', ''toString''], c_trained = True,
                  c_timestamp = [], c_stats = (), c_featureLength = 102\<rparr>,
                m_trainingProgress := Some (), m_trainedAt := Some [],
                m_sampleCounts := Some [(''constructor'', Text), (''toString'', Text)],
                m_updatedAt := Some []\<rparr>))
            2 [(''constructor'', Text), (''toString'', Text)]\<rparr>,
         oneModel(''models/m1.json'' \<mapsto>
            untrainedModel\<lparr>m_samples := Some [sampleOf ''constructor'', sampleOf ''toString''],
                m_classifier := Some \<lparr>c_type = ''neural_network'', c_network = Some (),
                  c_uniqueLabels = [''constructor'', ''toString''], c_trained = True,
                  c_timestamp = [], c_stats = (), c_featureLength = 102\<rparr>,
                m_trainingProgress := Some (), m_trainedAt := Some [],
                m_sampleCounts := Some [(''constructor'', Text), (''toString'', Text)],
                m_updatedAt := Some []\<rparr>))"
    using counts none trained
    by (simp add: trainRoute_def inheritedSigns_def oneModel_def addSamplesToModel_def
        updateModel_def getModel_def samplesOf_def untrainedModel_def sampleOf_def Let_def
        exampleRuntime_def jsonModel_def jsonClassifier_def jsonSample_zeroHand noClock_def
        preprocessLandmarks_zeroHands)
  show ?thesis
    unfolding two one by (simp add: sampleCount_def sampleOf_def)
qed

text \<open>
  C10, amended. A request with a model identifier and samples, for a model whose file holds a
  JSON value, is rejected with status 400 whenever a sign among the accumulated samples has
  fewer than 3 samples, provided that no sign is a name that every object inherits. With at
  least 2 accumulated samples the error lists exactly the signs with fewer than 3 samples;
  with a single one it asks for at least 2 samples. The classifier in the file of the model is
  unchanged.
\<close>

theorem trainRoute_insufficient:
  assumes "r_modelId req \<noteq> []" and "r_samples req = Some new" and "new \<noteq> []"
    and "st (path_join rt (r_modelId req)) = Some model"
    and "jsonModel rt model = model"
    and "\<forall>s\<in>set (samplesOf model @ new). s_sign s \<notin> set inheritedNames"
    and "\<exists>s\<in>set (samplesOf model @ new).
           sampleCount (s_sign s) (samplesOf model @ new) < 3"
  shows "res_status (fst (trainRoute a lib rt clock report st req)) = 400
    \<and> (if length (samplesOf model @ new) < 2
        then res_body (fst (trainRoute a lib rt clock report st req))
               = ErrorMessage ''Need at least 2 samples to train''
        else \<exists>listed counts.
               res_body (fst (trainRoute a lib rt clock report st req))
                 = InsufficientSamples listed counts
               \<and> set listed = {k \<in> s_sign ` set (samplesOf model @ new).
                                 sampleCount k (samplesOf model @ new) < 3})
    \<and> (\<exists>stored. snd (trainRoute a lib rt clock report st req) (path_join rt (r_modelId req))
                   = Some stored
          \<and> m_classifier stored = m_classifier model)"
proof -
  let ?all = "samplesOf model @ new"
  let ?json = "map jsonSample ?all"
  let ?m1 = "jsonModel rt (model\<lparr>m_samples := Some ?all, m_updatedAt := Some (clock 0)\<rparr>)"
  let ?st1 = "st(path_join rt (r_modelId req) \<mapsto> ?m1)"
  have st1: "snd (addSamplesToModel rt (clock 0) st (r_modelId req) new) = ?st1"
    using assms(4) by (rule addSamples_store)
  have all: "samplesOf ?m1 = ?json"
    by (simp add: samplesOf_def jsonModel_def)
  have "m_classifier (jsonModel rt model) = m_classifier model"
    using assms(5) by simp
  then have cl: "m_classifier ?m1 = m_classifier model"
    by (simp add: jsonModel_def)
  have inh: "\<forall>s\<in>set ?json. s_sign s \<notin> set inheritedNames"
    using assms(6) by auto
  have sig: "s_sign ` set ?json = s_sign ` set ?all"
    unfolding set_map by (rule signs_jsonSample)
  have cnt: "sampleCount k ?json = sampleCount k ?all" for k
    by (rule sampleCount_jsonSample)
  have listed: "set (filter (insufficient (countSigns ?json)) (objectKeys (countSigns ?json)))
      = {k \<in> s_sign ` set ?all. sampleCount k ?all < 3}"
    unfolding insufficientSigns [OF inh] sig cnt by (rule refl)
  have ne: "filter (insufficient (countSigns ?json)) (objectKeys (countSigns ?json)) \<noteq> []"
  proof -
    have "set (filter (insufficient (countSigns ?json)) (objectKeys (countSigns ?json))) \<noteq> {}"
      unfolding listed using assms(7) by blast
    then show ?thesis by (metis set_empty)
  qed
  show ?thesis
  proof (cases "length ?all < 2")
    case True
    then have "trainRoute a lib rt clock report st req
        = (fail 400 ''Need at least 2 samples to train'', ?st1)"
      using assms(1-4) by (simp add: trainRoute_def st1 getModel_def Let_def all)
    then show ?thesis
      using True cl by (simp add: fail_def)
  next
    case False
    then have "trainRoute a lib rt clock report st req
        = (\<lparr>res_status = 400,
            res_body = InsufficientSamples
              (filter (insufficient (countSigns ?json)) (objectKeys (countSigns ?json)))
              (countSigns ?json)\<rparr>, ?st1)"
      using assms(1-4) ne by (simp add: trainRoute_def st1 getModel_def Let_def all)
    then show ?thesis
      using False listed cl by simp
  qed
qed

theorem trainRoute_insufficient_witness:
  "res_status (fst (trainRoute Exact (constLib []) exampleRuntime noClock () oneModel twoSamples))
     = 400
   \<and> (\<exists>listed counts.
         res_body (fst (trainRoute Exact (constLib []) exampleRuntime noClock () oneModel
             twoSamples))
           = InsufficientSamples listed counts \<and> set listed = {''A'', ''B''})
   \<and> (\<exists>stored. snd (trainRoute Exact (constLib []) exampleRuntime noClock () oneModel twoSamples)
          ''models/m1.json''
          = Some stored \<and> m_classifier stored = None)"
proof -
  let ?new = "[sampleOf ''A'', sampleOf ''B'']"
  have e: "samplesOf untrainedModel @ ?new = ?new"
    by (simp add: samplesOf_def untrainedModel_def)
  have signs: "{k \<in> s_sign ` set ?new. sampleCount k ?new < 3} = {''A'', ''B''}"
    by (auto simp: sampleOf_def sampleCount_def)
  have id: "path_join exampleRuntime (r_modelId twoSamples) = ''models/m1.json''"
    and c: "m_classifier untrainedModel = None"
    by (simp_all add: twoSamples_def untrainedModel_def exampleRuntime_def)
  have 1: "r_modelId twoSamples \<noteq> []" and 2: "r_samples twoSamples = Some ?new"
    and 3: "?new \<noteq> []"
    and 4: "oneModel (path_join exampleRuntime (r_modelId twoSamples)) = Some untrainedModel"
    and 5: "jsonModel exampleRuntime untrainedModel = untrainedModel"
    unfolding id by (simp_all add: twoSamples_def oneModel_def jsonModel_def untrainedModel_def)
  have 6: "\<forall>s\<in>set (samplesOf untrainedModel @ ?new). s_sign s \<notin> set inheritedNames"
    unfolding e by (simp add: sampleOf_def inheritedNames_def)
  have 7: "\<exists>s\<in>set (samplesOf untrainedModel @ ?new).
      sampleCount (s_sign s) (samplesOf untrainedModel @ ?new) < 3"
    unfolding e by (simp add: sampleOf_def sampleCount_def)
  show ?thesis
    using trainRoute_insufficient [where req = twoSamples and st = oneModel
        and model = untrainedModel and a = Exact and lib = "constLib []" and clock = noClock
        and report = "()" and rt = exampleRuntime, OF 1 2 3 4 5 6 7]
    unfolding e signs id c by auto
qed
section \<open>Normalization of equal landmarks\<close>

lemma jsSub_self: "isFinite v \<Longrightarrow> jsSub a v v = Fin 0"
  by (cases v) (auto simp: jsSub_def)

lemma translate_self: "finiteLandmark p \<Longrightarrow> translate a p p = origin"
  by (simp add: translate_def finiteLandmark_def jsSub_self origin_def)

lemma normalized_replicate:
  "finiteLandmark p \<Longrightarrow> normalized a (replicate n p) = replicate n origin"
  by (cases n) (simp_all add: translate_self)

lemma maxDistance_replicate:
  "finiteLandmark p \<Longrightarrow> maxDistance a (replicate n p) = NInf"
  by (simp add: maxDistance_def normalized_replicate originDistance_origin jsGt_def Math_max_def)

lemma normalized_infHand:
  "normalized a infHand = replicate 21 \<lparr>lm_x = NaN, lm_y = Fin 0, lm_z = Fin 0\<rparr>"
  by (simp add: infHand_def numeral_eq_Suc translate_def jsSub_def)

lemma maxDistance_infHand: "maxDistance a infHand = NInf"
proof -
  have "originDistance a \<lparr>lm_x = NaN, lm_y = Fin 0, lm_z = Fin 0\<rparr> = NaN"
    by (simp add: originDistance_def)
  then show ?thesis
    by (simp add: maxDistance_def normalized_infHand jsGt_def Math_max_def)
qed

text \<open>
  C5, as the claim states it: 21 equal landmarks are normalized to 21 zero vectors. It fails
  when the landmarks are equal with an infinite coordinate: infinity minus infinity is NaN.
\<close>

theorem normalizeLandmarks_equal_infinite:
  "normalizeLandmarks Binary64 infHand
     = replicate 21 \<lparr>lm_x = NaN, lm_y = Fin 0, lm_z = Fin 0\<rparr>
   \<and> normalizeLandmarks Binary64 infHand \<noteq> replicate 21 origin"
proof -
  have "normalizeLandmarks Binary64 infHand
      = replicate 21 \<lparr>lm_x = NaN, lm_y = Fin 0, lm_z = Fin 0\<rparr>"
    by (simp add: normalizeLandmarks_def maxDistance_infHand normalized_infHand)
  then show ?thesis
    by (simp add: origin_def numeral_eq_Suc)
qed

text \<open>
  C5, amended. 21 equal landmarks with finite coordinates are normalized to 21 zero vectors,
  and the result is the list of the translated landmarks, which \<open>normalizeLandmarks\<close> returns
  before it divides. For every input, when the greatest positive distance from the wrist is
  zero or not finite, the result is the list of the translated landmarks.
\<close>

theorem normalizeLandmarks_degenerate:
  "(finiteLandmark p \<longrightarrow>
      normalizeLandmarks a (replicate 21 p) = replicate 21 origin
      \<and> normalizeLandmarks a (replicate 21 p) = normalized a (replicate 21 p))
   \<and> (maxDistance a lms = Fin 0 \<or> \<not> isFinite (maxDistance a lms) \<longrightarrow>
      normalizeLandmarks a lms = normalized a lms)"
  by (simp add: normalizeLandmarks_def maxDistance_replicate normalized_replicate)

theorem normalizeLandmarks_degenerate_witness:
  "finiteLandmark origin
   \<and> normalizeLandmarks Binary64 (replicate 21 origin) = replicate 21 origin
   \<and> \<not> isFinite (maxDistance Binary64 infHand)
   \<and> normalizeLandmarks Binary64 infHand = normalized Binary64 infHand"
proof -
  have f: "finiteLandmark origin"
    by (simp add: finiteLandmark_def origin_def)
  show ?thesis
    using normalizeLandmarks_degenerate [where p = origin and a = Binary64 and lms = infHand]
      f maxDistance_infHand [of Binary64]
    by simp
qed

section \<open>The scale of normalized landmarks without rounding\<close>

lemma finiteLandmark_point: "finiteLandmark p \<longleftrightarrow> (\<exists>x y z. p = point x y z)"
  by (cases p) (auto simp: finiteLandmark_def point_def isFinite_iff)

lemma Math_max_snoc: "Math_max (ds @ [d]) = Math_max2 (Math_max ds) d"
  by (simp add: Math_max_def)

lemma jsGt_zero: "jsGt d (Fin 0) \<longleftrightarrow> d = PInf \<or> (\<exists>r. d = Fin r \<and> 0 < r)"
  by (cases d) (auto simp: jsGt_def)

text \<open>The greatest of positive numbers.\<close>

lemma Math_max_positive:
  "\<forall>d\<in>set ds. jsGt d (Fin 0) \<Longrightarrow>
     ds = [] \<and> Math_max ds = NInf
     \<or> Math_max ds = PInf \<and> PInf \<in> set ds
     \<or> (\<exists>m. Math_max ds = Fin m \<and> 0 < m \<and> Fin m \<in> set ds
            \<and> (\<forall>d\<in>set ds. \<exists>r. d = Fin r \<and> r \<le> m))"
proof (induction ds rule: rev_induct)
  case Nil
  then show ?case by (simp add: Math_max_def)
next
  case (snoc d ds)
  then consider (empty) "ds = []" "Math_max ds = NInf"
    | (inf) "Math_max ds = PInf" "PInf \<in> set ds"
    | (fin) m where "Math_max ds = Fin m" "0 < m" "Fin m \<in> set ds"
        "\<forall>d\<in>set ds. \<exists>r. d = Fin r \<and> r \<le> m"
    by auto
  then show ?case
  proof cases
    case empty
    from snoc.prems have "d = PInf \<or> (\<exists>r. d = Fin r \<and> 0 < r)"
      by (simp add: jsGt_zero)
    then show ?thesis
      using empty by (auto simp: Math_max_def)
  next
    case inf
    from snoc.prems have "d = PInf \<or> (\<exists>r. d = Fin r \<and> 0 < r)"
      by (simp add: jsGt_zero)
    then show ?thesis
      using inf by (auto simp: Math_max_snoc)
  next
    case fin
    from snoc.prems have "d = PInf \<or> (\<exists>r. d = Fin r \<and> 0 < r)"
      by (simp add: jsGt_zero)
    then show ?thesis
    proof
      assume "d = PInf"
      then show ?thesis
        using fin by (simp add: Math_max_snoc)
    next
      assume "\<exists>r. d = Fin r \<and> 0 < r"
      then obtain r where r: "d = Fin r" "0 < r"
        by auto
      have "Math_max (ds @ [d]) = Fin (max m r)"
        using fin(1) r(1) by (simp add: Math_max_snoc)
      moreover have "Fin (max m r) \<in> set (ds @ [d])"
        using fin(3) r(1) by (auto simp: max_def)
      moreover have "\<forall>e\<in>set (ds @ [d]). \<exists>q. e = Fin q \<and> q \<le> max m r"
        using fin(4) r(1) by fastforce
      moreover have "0 < max m r"
        using fin(2) by simp
      ultimately show ?thesis
        by blast
    qed
  qed
qed

lemma Math_max_finite:
  assumes "\<forall>d\<in>set ds. jsGt d (Fin 0)" and "Math_max ds = Fin m"
  shows "0 < m \<and> Fin m \<in> set ds \<and> (\<forall>d\<in>set ds. \<exists>r. d = Fin r \<and> r \<le> m)"
  using Math_max_positive [OF assms(1)] assms(2) by auto

text \<open>The greatest of finite numbers, when their upper bound is among them.\<close>

lemma Math_max_bounded:
  "\<forall>d\<in>set ds. \<exists>r. d = Fin r \<and> r \<le> M \<Longrightarrow>
     ds = [] \<and> Math_max ds = NInf
     \<or> (\<exists>m. Math_max ds = Fin m \<and> m \<le> M \<and> (\<forall>d\<in>set ds. \<exists>r. d = Fin r \<and> r \<le> m))"
proof (induction ds rule: rev_induct)
  case Nil
  then show ?case by (simp add: Math_max_def)
next
  case (snoc d ds)
  from snoc.prems obtain r where r: "d = Fin r" "r \<le> M"
    by auto
  from snoc consider (empty) "ds = []" "Math_max ds = NInf"
    | (fin) m where "Math_max ds = Fin m" "m \<le> M" "\<forall>d\<in>set ds. \<exists>r. d = Fin r \<and> r \<le> m"
    by auto
  then show ?case
  proof cases
    case empty
    then show ?thesis
      using r by (simp add: Math_max_def)
  next
    case fin
    have "Math_max (ds @ [d]) = Fin (max m r)"
      using fin(1) r(1) by (simp add: Math_max_snoc)
    moreover have "\<forall>e\<in>set (ds @ [d]). \<exists>q. e = Fin q \<and> q \<le> max m r"
      using fin(3) r(1) by fastforce
    moreover have "max m r \<le> M"
      using fin(2) r(2) by simp
    ultimately show ?thesis
      by blast
  qed
qed

lemma Math_max_reached:
  assumes "\<forall>d\<in>set ds. \<exists>r. d = Fin r \<and> r \<le> M" and "Fin M \<in> set ds"
  shows "Math_max ds = Fin M"
proof -
  from Math_max_bounded [OF assms(1)] assms(2)
  obtain m where m: "Math_max ds = Fin m" "m \<le> M" "\<forall>d\<in>set ds. \<exists>r. d = Fin r \<and> r \<le> m"
    by auto
  from m(3) assms(2) have "M \<le> m"
    by auto
  then show ?thesis
    using m(1,2) by simp
qed


lemma square_overflow:
  "jsMul a (fl a r) (fl a r) = PInf
   \<or> fl a r = Fin r \<and> jsMul a (fl a r) (fl a r) = Fin (r * r)"
proof -
  have "fl a (r * r) = PInf \<or> fl a (r * r) = Fin (r * r)"
    by (rule fl_nonneg) simp
  then show ?thesis
    using fl_cases [of a r] by auto
qed

lemma sum_overflow:
  assumes "u = PInf \<or> (\<exists>p. u = Fin p \<and> 0 \<le> p)" and "v = PInf \<or> (\<exists>q. v = Fin q \<and> 0 \<le> q)"
  shows "jsAdd a u v = PInf
    \<or> (\<exists>p q. u = Fin p \<and> v = Fin q \<and> 0 \<le> p \<and> 0 \<le> q \<and> jsAdd a u v = Fin (p + q))"
proof -
  from assms consider (inf) "u = PInf \<or> v = PInf"
    | (fin) p q where "u = Fin p" "v = Fin q" "0 \<le> p" "0 \<le> q"
    by auto
  then show ?thesis
  proof cases
    case inf
    with assms have "jsAdd a u v = PInf"
      by (cases u; cases v) auto
    then show ?thesis ..
  next
    case fin
    have "fl a (p + q) = PInf \<or> fl a (p + q) = Fin (p + q)"
      using fin(3,4) by (intro fl_nonneg) simp
    then show ?thesis
      using fin by auto
  qed
qed

text \<open>The distance of a translated point from the origin is exact, or infinite by overflow.\<close>

lemma originDistance_overflow:
  "originDistance a \<lparr>lm_x = fl a x, lm_y = fl a y, lm_z = fl a z\<rparr> = PInf
   \<or> fl a x = Fin x \<and> fl a y = Fin y \<and> fl a z = Fin z
     \<and> originDistance a \<lparr>lm_x = fl a x, lm_y = fl a y, lm_z = fl a z\<rparr> = Fin (norm3 x y z)"
proof -
  let ?sx = "jsMul a (fl a x) (fl a x)" and ?sy = "jsMul a (fl a y) (fl a y)"
  let ?sz = "jsMul a (fl a z) (fl a z)"
  have nx: "?sx = PInf \<or> (\<exists>p. ?sx = Fin p \<and> 0 \<le> p)"
    using square_overflow [of a x] by auto
  have ny: "?sy = PInf \<or> (\<exists>p. ?sy = Fin p \<and> 0 \<le> p)"
    using square_overflow [of a y] by auto
  have nz: "?sz = PInf \<or> (\<exists>p. ?sz = Fin p \<and> 0 \<le> p)"
    using square_overflow [of a z] by auto
  note xy = sum_overflow [OF nx ny, of a]
  then have nxy: "jsAdd a ?sx ?sy = PInf \<or> (\<exists>p. jsAdd a ?sx ?sy = Fin p \<and> 0 \<le> p)"
    by auto
  note xyz = sum_overflow [OF nxy nz, of a]
  show ?thesis
  proof (cases "jsAdd a (jsAdd a ?sx ?sy) ?sz = PInf")
    case True
    then show ?thesis
      by (simp add: originDistance_def)
  next
    case False
    with xyz obtain s q where s: "jsAdd a ?sx ?sy = Fin s" "?sz = Fin q"
      "jsAdd a (jsAdd a ?sx ?sy) ?sz = Fin (s + q)" "0 \<le> s" "0 \<le> q"
      by auto
    with xy obtain p r where p: "?sx = Fin p" "?sy = Fin r" "s = p + r"
      by auto
    from p(1) square_overflow [of a x] have x: "fl a x = Fin x" "p = x * x"
      by auto
    from p(2) square_overflow [of a y] have y: "fl a y = Fin y" "r = y * y"
      by auto
    from s(2) square_overflow [of a z] have z: "fl a z = Fin z" "q = z * z"
      by auto
    have "originDistance a \<lparr>lm_x = fl a x, lm_y = fl a y, lm_z = fl a z\<rparr>
        = Math_sqrt (Fin (x * x + y * y + z * z))"
      using s(3) by (simp add: originDistance_def p(3) x(2) y(2) z(2))
    moreover have "\<not> x * x + y * y + z * z < 0"
      by (simp add: add_nonneg_nonneg not_less)
    ultimately show ?thesis
      using x(1) y(1) z(1) by (simp add: norm3_def)
  qed
qed


lemma translate_point:
  "translate a (point wx wy wz) (point px py pz)
     = \<lparr>lm_x = fl a (px - wx), lm_y = fl a (py - wy), lm_z = fl a (pz - wz)\<rparr>"
  by (simp add: translate_def point_def jsSub_def)

lemma abs_le_norm3: "\<bar>x\<bar> \<le> norm3 x y z \<and> \<bar>y\<bar> \<le> norm3 x y z \<and> \<bar>z\<bar> \<le> norm3 x y z"
proof -
  have "sqrt (x * x) \<le> norm3 x y z" "sqrt (y * y) \<le> norm3 x y z" "sqrt (z * z) \<le> norm3 x y z"
    unfolding norm3_def by (rule real_sqrt_le_mono, simp add: add_nonneg_nonneg)+
  then show ?thesis
    by simp
qed

lemma norm3_divide: "0 < m \<Longrightarrow> norm3 (x / m) (y / m) (z / m) = norm3 x y z / m"
proof -
  assume m: "0 < m"
  have "x / m * (x / m) + y / m * (y / m) + z / m * (z / m) = (x * x + y * y + z * z) / (m * m)"
    by (simp add: add_divide_distrib)
  then show ?thesis
    using m by (simp add: norm3_def real_sqrt_divide)
qed

lemma originDistance_Exact_point: "originDistance Exact (point x y z) = Fin (norm3 x y z)"
proof -
  have "\<not> x * x + y * y + z * z < 0"
    by (simp add: add_nonneg_nonneg not_less)
  then show ?thesis
    by (simp add: originDistance_def point_def norm3_def)
qed

lemma scaleDown_point:
  assumes "0 < m" and "norm3 x y z \<le> m"
  shows "scaleDown a (Fin m) (point x y z) = point (x / m) (y / m) (z / m)"
proof -
  have "\<bar>c\<bar> \<le> norm3 x y z \<Longrightarrow> fl a (c / m) = Fin (c / m)" for c
  proof (rule fl_in_range)
    assume "\<bar>c\<bar> \<le> norm3 x y z"
    then have "\<bar>c\<bar> \<le> m" using assms(2) by simp
    then have "\<bar>c / m\<bar> \<le> 1" using assms(1) by simp
    then show "\<bar>c / m\<bar> \<le> MAX_VALUE" using MAX_VALUE_ge_1 by simp
  qed
  then show ?thesis
    using assms(1) abs_le_norm3 [of x y z] by (simp add: scaleDown_def point_def)
qed

text \<open>When the coordinates are finite and the scale is, no translated point overflows and
  the scale is the greatest of their distances from the origin.\<close>

lemma finite_scale:
  assumes "\<forall>p\<in>set lms. finiteLandmark p" and "maxDistance a lms = Fin m"
  shows "0 < m"
    and "\<forall>q\<in>set (normalized a lms). \<exists>x y z. q = point x y z \<and> norm3 x y z \<le> m"
    and "\<exists>x y z. point x y z \<in> set (normalized a lms) \<and> norm3 x y z = m"
proof -
  let ?ds = "filter (\<lambda>d. jsGt d (Fin 0)) (map (originDistance a) (normalized a lms))"
  have "\<forall>d\<in>set ?ds. jsGt d (Fin 0)"
    by simp
  moreover have "Math_max ?ds = Fin m"
    using assms(2) by (simp add: maxDistance_def)
  ultimately have m: "0 < m" "Fin m \<in> set ?ds" "\<forall>d\<in>set ?ds. \<exists>r. d = Fin r \<and> r \<le> m"
    using Math_max_finite by blast+
  show "0 < m"
    by (rule m(1))
  obtain w rest where lms: "lms = w # rest"
    using assms(2) by (cases lms) (auto simp: maxDistance_def Math_max_def)
  have exact: "\<exists>x y z. q = point x y z \<and> originDistance a q = Fin (norm3 x y z)
      \<and> norm3 x y z \<le> m" if "q \<in> set (normalized a lms)" for q
  proof -
    from that obtain p where p: "p \<in> set lms" "q = translate a w p"
      by (auto simp: lms)
    obtain px py pz wx wy wz where c: "p = point px py pz" "w = point wx wy wz"
      using assms(1) p(1) lms by (auto simp: finiteLandmark_point)
    have q: "q = \<lparr>lm_x = fl a (px - wx), lm_y = fl a (py - wy), lm_z = fl a (pz - wz)\<rparr>"
      by (simp add: p(2) c translate_point)
    have "originDistance a q \<noteq> PInf"
    proof
      assume inf: "originDistance a q = PInf"
      then have "PInf \<in> set ?ds"
        using that by (force simp: jsGt_def)
      then show False
        using m(3) by auto
    qed
    with originDistance_overflow [of a "px - wx" "py - wy" "pz - wz"]
    have e: "q = point (px - wx) (py - wy) (pz - wz)"
      "originDistance a q = Fin (norm3 (px - wx) (py - wy) (pz - wz))"
      by (auto simp: q point_def)
    have "norm3 (px - wx) (py - wy) (pz - wz) \<le> m"
    proof (cases "0 < norm3 (px - wx) (py - wy) (pz - wz)")
      case True
      then have "Fin (norm3 (px - wx) (py - wy) (pz - wz)) \<in> set ?ds"
        using that e(2) by (force simp: jsGt_def)
      then show ?thesis
        using m(3) by auto
    next
      case False
      then show ?thesis
        using m(1) by simp
    qed
    then show ?thesis
      using e by blast
  qed
  then show "\<forall>q\<in>set (normalized a lms). \<exists>x y z. q = point x y z \<and> norm3 x y z \<le> m"
    by blast
  from m(2) obtain q where q: "q \<in> set (normalized a lms)" "originDistance a q = Fin m"
    by auto
  from exact [OF q(1)] q(2)
  show "\<exists>x y z. point x y z \<in> set (normalized a lms) \<and> norm3 x y z = m"
    using q(1) by auto
qed


lemma scaleDown_origin: "m \<noteq> 0 \<Longrightarrow> scaleDown a (Fin m) origin = origin"
  by (simp add: scaleDown_def origin_def)

lemma norm3_pos_iff: "0 < norm3 x y z \<longleftrightarrow> x \<noteq> 0 \<or> y \<noteq> 0 \<or> z \<noteq> 0"
proof -
  have "0 < x * x + y * y + z * z \<longleftrightarrow> x \<noteq> 0 \<or> y \<noteq> 0 \<or> z \<noteq> 0"
    using sum_power2_gt_zero_iff [of x y] sum_power2_gt_zero_iff [of "sqrt (x\<^sup>2 + y\<^sup>2)" z]
    by (auto simp: power2_eq_square add_nonneg_nonneg add_pos_nonneg add_nonneg_pos)
  then show ?thesis
    by (simp add: norm3_def)
qed

lemma translate_Exact_point:
  "translate Exact (point wx wy wz) (point px py pz) = point (px - wx) (py - wy) (pz - wz)"
  unfolding translate_point by (simp add: point_def)

text \<open>In exact arithmetic a sample with finite coordinates has a finite scale exactly when
  one of its landmarks differs from the wrist.\<close>

lemma finite_scale_iff:
  assumes "\<forall>p\<in>set lms. finiteLandmark p"
  shows "isFinite (maxDistance Exact lms) \<longleftrightarrow> (\<exists>p\<in>set lms. p \<noteq> lms ! 0)"
proof
  assume f: "isFinite (maxDistance Exact lms)"
  show "\<exists>p\<in>set lms. p \<noteq> lms ! 0"
  proof (rule ccontr)
    assume "\<not> (\<exists>p\<in>set lms. p \<noteq> lms ! 0)"
    then have "replicate (length lms) (lms ! 0) = lms"
      by (intro replicate_length_same) simp
    moreover have "finiteLandmark (lms ! 0)"
      using f assms by (cases lms) (auto simp: maxDistance_def Math_max_def)
    ultimately have "maxDistance Exact lms = NInf"
      using maxDistance_replicate [of "lms ! 0" Exact "length lms"] by simp
    then show False
      using f by simp
  qed
next
  assume "\<exists>p\<in>set lms. p \<noteq> lms ! 0"
  then obtain p where p: "p \<in> set lms" "p \<noteq> lms ! 0"
    by blast
  then obtain w rest where lms: "lms = w # rest"
    by (cases lms) auto
  let ?ds = "filter (\<lambda>d. jsGt d (Fin 0)) (map (originDistance Exact) (normalized Exact lms))"
  obtain px py pz wx wy wz where c: "p = point px py pz" "w = point wx wy wz"
    using assms p(1) lms by (auto simp: finiteLandmark_point)
  have "px - wx \<noteq> 0 \<or> py - wy \<noteq> 0 \<or> pz - wz \<noteq> 0"
    using p(2) c by (auto simp: lms point_def)
  then have pos: "0 < norm3 (px - wx) (py - wy) (pz - wz)"
    by (simp only: norm3_pos_iff)
  have "originDistance Exact (translate Exact w p) = Fin (norm3 (px - wx) (py - wy) (pz - wz))"
    by (simp add: c translate_Exact_point originDistance_Exact_point)
  then have "Fin (norm3 (px - wx) (py - wy) (pz - wz)) \<in> set ?ds"
    using p(1) pos by (force simp: lms jsGt_def)
  then have ne: "?ds \<noteq> []"
    by (metis empty_iff empty_set)
  have "d \<noteq> PInf" if "d \<in> set ?ds" for d
  proof -
    from that obtain q where q: "q \<in> set lms" "d = originDistance Exact (translate Exact w q)"
      by (auto simp: lms split: if_splits)
    obtain qx qy qz where "q = point qx qy qz"
      using assms q(1) by (auto simp: finiteLandmark_point)
    then show ?thesis
      by (simp add: q(2) c(2) translate_Exact_point originDistance_Exact_point)
  qed
  moreover have "\<forall>d\<in>set ?ds. jsGt d (Fin 0)"
    by simp
  from Math_max_positive [OF this] ne
  have "Math_max ?ds = PInf \<and> PInf \<in> set ?ds \<or> (\<exists>m. Math_max ?ds = Fin m)"
    by blast
  ultimately show "isFinite (maxDistance Exact lms)"
    by (auto simp: maxDistance_def)
qed

text \<open>Where finite results are exact, that is in the arithmetic \<open>Exact\<close> and in \<open>Binary64\<close>
  as far as nothing overflows: when the coordinates of the input are finite, landmark 0 of the
  result is the origin; and when moreover the scale \<open>maxDistance\<close> is finite, the landmarks of
  the result are finite and the greatest of their Euclidean norms is 1.\<close>

lemma normalizeLandmarks_unrounded_scale:
  assumes "lms \<noteq> []" and "\<forall>p\<in>set lms. finiteLandmark p"
  shows "normalizeLandmarks a lms ! 0 = origin
    \<and> (isFinite (maxDistance a lms) \<longrightarrow>
         (\<forall>q\<in>set (normalizeLandmarks a lms). finiteLandmark q)
         \<and> Math_max (map (originDistance Exact) (normalizeLandmarks a lms)) = Fin 1)"
proof
  obtain w rest where lms: "lms = w # rest"
    using assms(1) by (cases lms) auto
  have n0: "normalized a lms ! 0 = origin"
    using assms(2) by (simp add: lms translate_self)
  show "normalizeLandmarks a lms ! 0 = origin"
  proof (cases "maxDistance a lms = Fin 0 \<or> \<not> isFinite (maxDistance a lms)")
    case True
    then show ?thesis
      using n0 by (simp add: normalizeLandmarks_def)
  next
    case False
    then obtain m where m: "maxDistance a lms = Fin m" "m \<noteq> 0"
      by (auto simp: isFinite_iff)
    have "normalizeLandmarks a lms = map (scaleDown a (Fin m)) (normalized a lms)"
      using m by (simp add: normalizeLandmarks_def)
    moreover have "0 < length (normalized a lms)"
      by (simp add: lms)
    ultimately have "normalizeLandmarks a lms ! 0 = scaleDown a (Fin m) (normalized a lms ! 0)"
      by (simp only: nth_map)
    then show ?thesis
      using m(2) by (simp add: n0 scaleDown_origin)
  qed
  show "isFinite (maxDistance a lms) \<longrightarrow>
         (\<forall>q\<in>set (normalizeLandmarks a lms). finiteLandmark q)
         \<and> Math_max (map (originDistance Exact) (normalizeLandmarks a lms)) = Fin 1"
  proof
    assume "isFinite (maxDistance a lms)"
    then obtain m where md: "maxDistance a lms = Fin m"
      by (auto simp: isFinite_iff)
    note s = finite_scale [OF assms(2) md]
    have out: "normalizeLandmarks a lms = map (scaleDown a (Fin m)) (normalized a lms)"
      using s(1) by (simp add: normalizeLandmarks_def md)
    have scaled: "\<exists>x y z. q = point x y z \<and> norm3 x y z \<le> m
        \<and> scaleDown a (Fin m) q = point (x / m) (y / m) (z / m)
        \<and> originDistance Exact (scaleDown a (Fin m) q) = Fin (norm3 x y z / m)"
      if "q \<in> set (normalized a lms)" for q
    proof -
      from s(2) that obtain x y z where q: "q = point x y z" "norm3 x y z \<le> m"
        by blast
      have "scaleDown a (Fin m) q = point (x / m) (y / m) (z / m)"
        unfolding q(1) using s(1) q(2) by (rule scaleDown_point)
      then show ?thesis
        using q s(1) by (auto simp: originDistance_Exact_point norm3_divide)
    qed
    have fin: "\<forall>q\<in>set (normalizeLandmarks a lms). finiteLandmark q"
      unfolding out using scaled by (fastforce simp: finiteLandmark_point)
    have bound: "\<forall>d\<in>set (map (originDistance Exact) (normalizeLandmarks a lms)).
        \<exists>r. d = Fin r \<and> r \<le> 1"
    proof
      fix d
      assume "d \<in> set (map (originDistance Exact) (normalizeLandmarks a lms))"
      then obtain q where q: "q \<in> set (normalized a lms)"
        "d = originDistance Exact (scaleDown a (Fin m) q)"
        by (auto simp: out)
      from scaled [OF q(1)] obtain x y z where "norm3 x y z \<le> m" "d = Fin (norm3 x y z / m)"
        using q(2) by auto
      then show "\<exists>r. d = Fin r \<and> r \<le> 1"
        using s(1) by simp
    qed
    from s(3) obtain x y z where top: "point x y z \<in> set (normalized a lms)" "norm3 x y z = m"
      by blast
    from scaled [OF top(1)]
    have "originDistance Exact (scaleDown a (Fin m) (point x y z)) = Fin (norm3 x y z / m)"
      by (auto simp: point_def)
    then have "originDistance Exact (scaleDown a (Fin m) (point x y z)) = Fin 1"
      using top(2) s(1) by simp
    then have "Fin 1 \<in> set (map (originDistance Exact) (normalizeLandmarks a lms))"
      using top(1) by (force simp: out)
    with bound have "Math_max (map (originDistance Exact) (normalizeLandmarks a lms)) = Fin 1"
      by (rule Math_max_reached)
    with fin show "(\<forall>q\<in>set (normalizeLandmarks a lms). finiteLandmark q)
         \<and> Math_max (map (originDistance Exact) (normalizeLandmarks a lms)) = Fin 1"
      by simp
  qed
qed

lemma normalized_unitHand: "normalized a unitHand = unitHand"
  by (simp add: unitHand_def numeral_eq_Suc translate_def origin_def jsSub_def point_def)

lemma originDistance_unit: "originDistance a (point 1 0 0) = Fin 1"
  by (simp add: originDistance_def point_def)

lemma maxDistance_unitHand: "maxDistance a unitHand = Fin 1"
  by (simp add: maxDistance_def normalized_unitHand)
     (simp add: unitHand_def originDistance_origin originDistance_unit jsGt_def Math_max_def)

lemma finite_unitHand: "\<forall>p\<in>set unitHand. finiteLandmark p"
  by (auto simp: unitHand_def finiteLandmark_def origin_def point_def)

section \<open>Scaling and translation in exact arithmetic\<close>

lemma scaleBy_simps [simp]:
  "scaleBy k (Fin r) = Fin (k * r)" "scaleBy k NaN = NaN"
  "0 < k \<Longrightarrow> scaleBy k PInf = PInf" "0 < k \<Longrightarrow> scaleBy k NInf = NInf"
  by (simp_all add: scaleBy_def)

lemma jsSub_scaled:
  "0 < k \<Longrightarrow> jsSub Exact (jsAdd Exact (scaleBy k c) (Fin t)) (Fin (k * w + t))
     = scaleBy k (jsSub Exact c (Fin w))"
  by (cases c) (simp_all add: jsSub_def algebra_simps)

lemma translate_scaled:
  "0 < k \<Longrightarrow> finiteLandmark w \<Longrightarrow>
   translate Exact (scaleAndTranslate k tx ty tz w) (scaleAndTranslate k tx ty tz p)
     = scaleLandmark k (translate Exact w p)"
  by (auto simp: translate_def scaleAndTranslate_def scaleLandmark_def finiteLandmark_def
      isFinite_iff jsSub_scaled)




















lemma normalized_scaled:
  assumes "0 < k" and "finiteLandmark w"
  shows "normalized Exact (map (scaleAndTranslate k tx ty tz) (w # rest))
     = map (scaleLandmark k) (normalized Exact (w # rest))"
  using translate_scaled [OF assms] by simp




section \<open>The length and the composition of the feature vector\<close>

lemma small_iff: "small a b v \<longleftrightarrow> (\<exists>r. v = Fin r \<and> (a = Exact \<or> \<bar>r\<bar> \<le> b))"
  by (cases v) (auto simp: small_def)

lemma small_mono: "small a b v \<Longrightarrow> b \<le> c \<Longrightarrow> small a c v"
  by (auto simp: small_iff)

lemma small_isFinite: "small a b v \<Longrightarrow> isFinite v"
  by (auto simp: small_iff)

lemma fl_small: "a = Exact \<or> \<bar>r\<bar> \<le> b \<Longrightarrow> b \<le> MAX_VALUE \<Longrightarrow> fl a r = Fin r"
  by (cases a) (auto simp: fl_def)

lemma small_sub:
  assumes "small a b u" and "small a b v" and "2 * b \<le> MAX_VALUE"
  shows "small a (2 * b) (jsSub a u v)"
proof -
  from assms(1,2) obtain p q where u: "u = Fin p" "a = Exact \<or> \<bar>p\<bar> \<le> b"
    and v: "v = Fin q" "a = Exact \<or> \<bar>q\<bar> \<le> b"
    by (auto simp: small_iff)
  have r: "a = Exact \<or> \<bar>p - q\<bar> \<le> 2 * b"
    using u(2) v(2) by auto
  then have "fl a (p - q) = Fin (p - q)"
    using assms(3) by (rule fl_small)
  then show ?thesis
    using r by (simp add: u(1) v(1) jsSub_def small_iff)
qed

lemma abs_mult_le: "\<bar>p\<bar> \<le> b \<Longrightarrow> \<bar>q\<bar> \<le> c \<Longrightarrow> \<bar>p * q\<bar> \<le> b * (c::real)"
  unfolding abs_mult by (rule mult_mono) auto

lemma small_mul:
  assumes "small a b u" and "small a c v" and "b * c \<le> MAX_VALUE"
  shows "small a (b * c) (jsMul a u v)"
proof -
  from assms(1,2) obtain p q where u: "u = Fin p" "a = Exact \<or> \<bar>p\<bar> \<le> b"
    and v: "v = Fin q" "a = Exact \<or> \<bar>q\<bar> \<le> c"
    by (auto simp: small_iff)
  have r: "a = Exact \<or> \<bar>p * q\<bar> \<le> b * c"
    using u(2) v(2) abs_mult_le [of p b q c] by blast
  then have "fl a (p * q) = Fin (p * q)"
    using assms(3) by (rule fl_small)
  then show ?thesis
    using r by (simp add: u(1) v(1) small_iff)
qed

lemma small_add:
  assumes "small a b u" and "small a c v" and "b + c \<le> MAX_VALUE"
  shows "small a (b + c) (jsAdd a u v)"
proof -
  from assms(1,2) obtain p q where u: "u = Fin p" "a = Exact \<or> \<bar>p\<bar> \<le> b"
    and v: "v = Fin q" "a = Exact \<or> \<bar>q\<bar> \<le> c"
    by (auto simp: small_iff)
  have r: "a = Exact \<or> \<bar>p + q\<bar> \<le> b + c"
    using u(2) v(2) by auto
  then have "fl a (p + q) = Fin (p + q)"
    using assms(3) by (rule fl_small)
  then show ?thesis
    using r by (simp add: u(1) v(1) small_iff)
qed

text \<open>Squares, their sums and the square roots of these.\<close>

lemma smallSquare_iff:
  "smallSquare a b v \<longleftrightarrow> (\<exists>r. v = Fin r \<and> 0 \<le> r \<and> (a = Exact \<or> r \<le> b))"
  by (cases v) (auto simp: smallSquare_def)

lemma smallSquare_zero: "0 \<le> b \<Longrightarrow> smallSquare a b (Fin 0)"
  by (simp add: smallSquare_iff)

lemma smallSquare_mul:
  assumes "small a b u" and "b * b \<le> MAX_VALUE"
  shows "smallSquare a (b * b) (jsMul a u u)" and "smallSquare a (b * b) (Math_pow2 a u)"
proof -
  from assms(1) obtain p where u: "u = Fin p" "a = Exact \<or> \<bar>p\<bar> \<le> b"
    by (auto simp: small_iff)
  have r: "a = Exact \<or> \<bar>p * p\<bar> \<le> b * b"
    using u(2) abs_mult_le [of p b p b] by blast
  then have "fl a (p * p) = Fin (p * p)"
    using assms(2) by (rule fl_small)
  then show "smallSquare a (b * b) (jsMul a u u)" and "smallSquare a (b * b) (Math_pow2 a u)"
    using r by (simp_all add: u(1) smallSquare_iff)
qed

lemma smallSquare_add:
  assumes "smallSquare a b u" and "smallSquare a c v" and "b + c \<le> MAX_VALUE"
  shows "smallSquare a (b + c) (jsAdd a u v)"
proof -
  from assms(1,2) obtain p q where u: "u = Fin p" "0 \<le> p" "a = Exact \<or> p \<le> b"
    and v: "v = Fin q" "0 \<le> q" "a = Exact \<or> q \<le> c"
    by (auto simp: smallSquare_iff)
  have r: "a = Exact \<or> \<bar>p + q\<bar> \<le> b + c"
    using u(2,3) v(2,3) by auto
  then have "fl a (p + q) = Fin (p + q)"
    using assms(3) by (rule fl_small)
  then show ?thesis
    using r u(2) v(2) by (auto simp add: u(1) v(1) smallSquare_iff)
qed

lemma sqrt_smallSquare:
  assumes "smallSquare a b v"
  shows "\<exists>n. Math_sqrt v = Fin n \<and> 0 \<le> n \<and> (a = Exact \<or> n * n \<le> b)"
proof -
  from assms obtain r where v: "v = Fin r" "0 \<le> r" "a = Exact \<or> r \<le> b"
    by (auto simp: smallSquare_iff)
  have "sqrt r * sqrt r = r"
    using v(2) by simp
  then show ?thesis
    using v by auto
qed


text \<open>The distance of two landmarks with small coordinates is finite.\<close>

lemma euclideanDistance_small:
  assumes "smallLandmark a b p" and "smallLandmark a b q"
    and "0 \<le> b" and "2 * b \<le> MAX_VALUE" and "12 * (b * b) \<le> MAX_VALUE"
  shows "isFinite (euclideanDistance a (coords p) (coords q))"
proof -
  let ?c = "2 * b * (2 * b)"
  have "0 \<le> b * b" and "?c = 4 * (b * b)"
    by simp_all
  then have c: "?c \<le> MAX_VALUE" "0 + ?c \<le> MAX_VALUE" "0 + ?c + ?c \<le> MAX_VALUE"
    "0 + ?c + ?c + ?c \<le> MAX_VALUE"
    using assms(5) by linarith+
  have sq: "smallSquare a ?c (Math_pow2 a (jsSub a u v))" if "small a b u" "small a b v" for u v
    using small_sub [OF that assms(4)] c(1) by (rule smallSquare_mul(2))
  note x = sq [of "lm_x p" "lm_x q"] and y = sq [of "lm_y p" "lm_y q"]
    and z = sq [of "lm_z p" "lm_z q"]
  have 0: "smallSquare a 0 (Fin 0)"
    by (simp add: smallSquare_iff)
  have "smallSquare a (0 + ?c + ?c + ?c)
     (jsAdd a (jsAdd a (jsAdd a (Fin 0) (Math_pow2 a (jsSub a (lm_x p) (lm_x q))))
                        (Math_pow2 a (jsSub a (lm_y p) (lm_y q))))
              (Math_pow2 a (jsSub a (lm_z p) (lm_z q))))"
    using assms(1,2) c
    by (intro smallSquare_add 0 x y z) (simp_all add: smallLandmark_def)
  from sqrt_smallSquare [OF this] show ?thesis
    by (auto simp: euclideanDistance_def coords_def)
qed

lemma clamp_cosine:
  "\<not> isNaN c \<Longrightarrow> \<exists>t. Math_max2 (Fin (- 1)) (Math_min2 (Fin 1) c) = Fin t \<and> - 1 \<le> t \<and> t \<le> 1"
  by (cases c) (auto simp: Math_max2_def Math_min2_def)

lemma translate_small:
  assumes "smallLandmark a b w" and "smallLandmark a b p" and "2 * b \<le> MAX_VALUE"
  shows "smallLandmark a (2 * b) (translate a w p)"
  using assms by (simp add: smallLandmark_def translate_def small_sub)

lemma originDistance_small:
  assumes "smallLandmark a c v" and "0 \<le> c" and "3 * (c * c) \<le> MAX_VALUE"
  shows "\<exists>n. originDistance a v = Fin n \<and> 0 \<le> n \<and> (a = Exact \<or> n * n \<le> 3 * (c * c))"
proof -
  have "0 \<le> c * c"
    by simp
  then have c: "c * c \<le> MAX_VALUE" "c * c + c * c \<le> MAX_VALUE"
    "c * c + c * c + c * c \<le> MAX_VALUE"
    using assms(3) by linarith+
  have "smallSquare a (c * c + c * c + c * c)
     (jsAdd a (jsAdd a (jsMul a (lm_x v) (lm_x v)) (jsMul a (lm_y v) (lm_y v)))
              (jsMul a (lm_z v) (lm_z v)))"
    using assms(1) c by (intro smallSquare_add smallSquare_mul(1)) (simp_all add: smallLandmark_def)
  from sqrt_smallSquare [OF this] show ?thesis
    by (simp add: originDistance_def)
qed


text \<open>The angle at a landmark with small coordinates, between two such landmarks, is finite.\<close>

lemma calculateAngle_small:
  assumes "smallLandmark a b p1" and "smallLandmark a b p2" and "smallLandmark a b p3"
    and "0 \<le> b" and "2 * b \<le> MAX_VALUE" and "12 * (b * b) \<le> MAX_VALUE"
  shows "isFinite (calculateAngle a p1 p2 p3)"
proof -
  let ?c = "2 * b"
  let ?v1 = "translate a p2 p1" and ?v2 = "translate a p2 p3"
  have c0: "0 \<le> ?c" and c3: "3 * (?c * ?c) \<le> MAX_VALUE"
    using assms(4,6) by simp_all
  have "0 \<le> ?c * ?c"
    by simp
  then have cc: "?c * ?c \<le> MAX_VALUE" "?c * ?c + ?c * ?c \<le> MAX_VALUE"
    "?c * ?c + ?c * ?c + ?c * ?c \<le> MAX_VALUE"
    using c3 by linarith+
  have v1: "smallLandmark a ?c ?v1" and v2: "smallLandmark a ?c ?v2"
    using assms(1,2,3,5) by (simp_all add: translate_small)
  from originDistance_small [OF v1 c0 c3] obtain n1 where
    n1: "originDistance a ?v1 = Fin n1" "0 \<le> n1" "a = Exact \<or> n1 * n1 \<le> 3 * (?c * ?c)"
    by blast
  from originDistance_small [OF v2 c0 c3] obtain n2 where
    n2: "originDistance a ?v2 = Fin n2" "0 \<le> n2" "a = Exact \<or> n2 * n2 \<le> 3 * (?c * ?c)"
    by blast
  let ?dot = "jsAdd a (jsAdd a (jsMul a (lm_x ?v1) (lm_x ?v2)) (jsMul a (lm_y ?v1) (lm_y ?v2)))
                      (jsMul a (lm_z ?v1) (lm_z ?v2))"
  have "small a (?c * ?c + ?c * ?c + ?c * ?c) ?dot"
    using v1 v2 cc by (intro small_add small_mul) (simp_all add: smallLandmark_def)
  then obtain d where d: "?dot = Fin d"
    by (auto simp: small_iff)
  show ?thesis
  proof (cases "n1 = 0 \<or> n2 = 0")
    case True
    then show ?thesis
      using n1(1) n2(1) by (auto simp: calculateAngle_def Let_def)
  next
    case False
    have "2 * n1 * n2 \<le> n1\<^sup>2 + n2\<^sup>2"
      by (rule sum_squares_bound)
    then have "a = Exact \<or> \<bar>n1 * n2\<bar> \<le> 3 * (?c * ?c)"
      using n1(2,3) n2(2,3) by (auto simp: power2_eq_square abs_mult)
    then have prod: "jsMul a (Fin n1) (Fin n2) = Fin (n1 * n2)"
      using c3 by (simp add: fl_small)
    have "\<not> isNaN (jsDiv a (Fin d) (Fin (n1 * n2)))"
      using False by simp
    from clamp_cosine [OF this] obtain t where
      "Math_max2 (Fin (- 1)) (Math_min2 (Fin 1) (jsDiv a (Fin d) (Fin (n1 * n2)))) = Fin t"
      "- 1 \<le> t" "t \<le> 1"
      by blast
    then show ?thesis
      using False n1(1) n2(1) d prod by (simp add: calculateAngle_def Let_def)
  qed
qed


lemma smallLandmark_Exact: "smallLandmark Exact b p = finiteLandmark p"
  by (cases "lm_x p"; cases "lm_y p"; cases "lm_z p")
     (simp_all add: smallLandmark_def small_def finiteLandmark_def)

lemma smallLandmark_finite: "smallLandmark a b p \<Longrightarrow> finiteLandmark p"
  by (auto simp: smallLandmark_def finiteLandmark_def intro: small_isFinite)

lemma length_normalizeLandmarks: "length (normalizeLandmarks a lms) = length lms"
  by (cases lms) (simp_all add: normalizeLandmarks_def)

text \<open>Normalization keeps small coordinates small.\<close>

lemma normalizeLandmarks_small:
  assumes "\<forall>p\<in>set lms. smallLandmark a b p" and "2 * b \<le> MAX_VALUE" and "1 \<le> 2 * b"
  shows "\<forall>q\<in>set (normalizeLandmarks a lms). smallLandmark a (2 * b) q"
proof (cases lms)
  case Nil
  then show ?thesis
    by (simp add: normalizeLandmarks_def)
next
  case (Cons w rest)
  have tr: "\<forall>q\<in>set (normalized a lms). smallLandmark a (2 * b) q"
    using assms(1,2) by (auto simp: Cons translate_small)
  show ?thesis
  proof (cases "maxDistance a lms = Fin 0 \<or> \<not> isFinite (maxDistance a lms)")
    case True
    then show ?thesis
      using tr by (simp add: normalizeLandmarks_def)
  next
    case False
    then obtain m where m: "maxDistance a lms = Fin m"
      by (auto simp: isFinite_iff)
    have fin: "\<forall>p\<in>set lms. finiteLandmark p"
      using assms(1) by (auto intro: smallLandmark_finite)
    note s = finite_scale [OF fin m]
    have out: "normalizeLandmarks a lms = map (scaleDown a (Fin m)) (normalized a lms)"
      using s(1) by (simp add: normalizeLandmarks_def m)
    have "smallLandmark a (2 * b) (scaleDown a (Fin m) q)" if "q \<in> set (normalized a lms)" for q
    proof -
      from s(2) that obtain x y z where q: "q = point x y z" "norm3 x y z \<le> m"
        by blast
      have "\<bar>c\<bar> \<le> norm3 x y z \<Longrightarrow> \<bar>c / m\<bar> \<le> 2 * b" for c
      proof -
        assume "\<bar>c\<bar> \<le> norm3 x y z"
        then have "\<bar>c\<bar> \<le> m" using q(2) by simp
        then have "\<bar>c / m\<bar> \<le> 1" using s(1) by simp
        then show ?thesis using assms(3) by simp
      qed
      then show ?thesis
        using scaleDown_point [OF s(1) q(2), of a] abs_le_norm3 [of x y z]
        by (simp add: q(1) smallLandmark_def point_def small_iff)
    qed
    then show ?thesis
      by (simp add: out)
  qed
qed

lemma length_rawCoordinates: "length (rawCoordinates lms) = 3 * length lms"
  by (induction lms) (simp_all add: rawCoordinates_def coords_def)

lemma length_tipDistances: "length (tipDistances a lms) = 5"
  by (simp add: tipDistances_def fingerTips_def)

lemma length_palmDistances: "length (palmDistances a lms) = 15"
  by (simp add: palmDistances_def palmPoints_def length_concat upt_rec numeral_eq_Suc)

lemma length_jointAngles: "length lms = 21 \<Longrightarrow> length (jointAngles a lms) = 19"
  by (simp add: jointAngles_def upt_rec numeral_eq_Suc)


lemma bound_facts:
  "0 \<le> 2 * COORDINATE_BOUND" "2 * COORDINATE_BOUND \<le> MAX_VALUE" "1 \<le> 2 * COORDINATE_BOUND"
  "2 * (2 * COORDINATE_BOUND) \<le> MAX_VALUE"
  "12 * (2 * COORDINATE_BOUND * (2 * COORDINATE_BOUND)) \<le> MAX_VALUE"
  by (simp_all add: COORDINATE_BOUND_def MAX_VALUE_def)

text \<open>Every feature of landmarks with small coordinates is finite.\<close>

lemma features_finite:
  assumes "length lms = 21" and "\<forall>p\<in>set lms. smallLandmark a b p"
    and "0 \<le> b" and "2 * b \<le> MAX_VALUE" and "12 * (b * b) \<le> MAX_VALUE"
  shows "\<forall>f\<in>set (rawCoordinates lms @ tipDistances a lms @ palmDistances a lms
            @ jointAngles a lms). finiteFeature f"
proof -
  have nth: "smallLandmark a b (lms ! i)" if "i < 21" for i
    using assms(1,2) that by simp
  have fin: "isFinite f \<Longrightarrow> finiteFeature f" for f
    by (cases f) (simp_all add: finiteFeature_def)
  have dist: "finiteFeature (euclideanDistance a (coords (lms ! i)) (coords (lms ! j)))"
    if "i < 21" "j < 21" for i j
    using nth [OF that(1)] nth [OF that(2)] assms(3,4,5)
    by (intro fin euclideanDistance_small)
  have angle: "finiteFeature (calculateAngle a (lms ! (i - Suc 0)) (lms ! i) (lms ! Suc i))"
    if "i < 20" for i
    using nth [of "i - Suc 0"] nth [of i] nth [of "Suc i"] that assms(3,4,5)
    by (intro fin calculateAngle_small) simp_all
  have raw: "\<forall>f\<in>set (rawCoordinates lms). finiteFeature f"
    using assms(2)
    by (auto simp: rawCoordinates_def coords_def smallLandmark_def intro!: fin small_isFinite)
  have tips: "\<forall>f\<in>set (tipDistances a lms). finiteFeature f"
    by (auto simp: tipDistances_def fingerTips_def fingerBases_def nth_Cons' intro!: dist)
  have palms: "\<forall>f\<in>set (palmDistances a lms). finiteFeature f"
    by (auto simp: palmDistances_def palmPoints_def nth_Cons' intro!: dist)
  have angles: "\<forall>f\<in>set (jointAngles a lms). finiteFeature f"
    using assms(1) by (auto simp: jointAngles_def intro!: angle)
  show ?thesis
    using raw tips palms angles by auto
qed


text \<open>
  C2, amended. For every sample of 21 landmarks whose coordinates are finite and, where the
  arithmetic overflows, of magnitude at most \<open>2 ^ 500\<close>, the feature vector of the
  normalized sample has length 102: the 63 raw coordinates, the 5 distances from a fingertip
  to its base, the 15 distances between palm landmarks and the 19 joint angles, in this
  order, none of them filtered out.
\<close>

theorem extractFeatures_composition:
  assumes "length lms = 21" and "\<forall>p\<in>set lms. smallLandmark a COORDINATE_BOUND p"
  shows "extractFeatures a (normalizeLandmarks a lms)
      = Inr (rawCoordinates (normalizeLandmarks a lms) @ tipDistances a (normalizeLandmarks a lms)
             @ palmDistances a (normalizeLandmarks a lms) @ jointAngles a (normalizeLandmarks a lms))
    \<and> length (rawCoordinates (normalizeLandmarks a lms)) = 63
    \<and> length (tipDistances a (normalizeLandmarks a lms)) = 5
    \<and> length (palmDistances a (normalizeLandmarks a lms)) = 15
    \<and> length (jointAngles a (normalizeLandmarks a lms)) = 19
    \<and> (\<exists>fs. extractFeatures a (normalizeLandmarks a lms) = Inr fs \<and> length fs = 102)"
proof -
  let ?N = "normalizeLandmarks a lms"
  let ?all = "rawCoordinates ?N @ tipDistances a ?N @ palmDistances a ?N @ jointAngles a ?N"
  have len: "length ?N = 21"
    using assms(1) by (simp add: length_normalizeLandmarks)
  have small: "\<forall>q\<in>set ?N. smallLandmark a (2 * COORDINATE_BOUND) q"
    using assms(2) bound_facts(2,3) by (rule normalizeLandmarks_small)
  have "\<forall>f\<in>set ?all. finiteFeature f"
    using len small bound_facts(1,4,5) by (rule features_finite)
  then have "filter finiteFeature ?all = ?all"
    by (simp only: filter_True)
  then have e: "extractFeatures a ?N = Inr ?all"
    using len by (simp add: extractFeatures_def)
  have l: "length (rawCoordinates ?N) = 63" "length (tipDistances a ?N) = 5"
    "length (palmDistances a ?N) = 15" "length (jointAngles a ?N) = 19"
    using len by (simp_all add: length_rawCoordinates length_tipDistances length_palmDistances
        length_jointAngles)
  then have "length ?all = 102"
    by simp
  then show ?thesis
    using e l by simp
qed

lemma nth_hugeHand:
  "i < 20 \<Longrightarrow> hugeHand ! i = origin" "hugeHand ! 20 = point huge 0 0"
  "length hugeHand = 21"
  by (simp_all add: hugeHand_def nth_append)

lemma fl_huge: "fl Binary64 huge = Fin huge" "fl Binary64 (huge * huge) = PInf"
  by (simp_all add: fl_def MAX_VALUE_def huge_def)

lemma normalized_hugeHand: "normalized Binary64 hugeHand = hugeHand"
  by (simp add: hugeHand_def numeral_eq_Suc translate_def origin_def jsSub_def point_def fl_huge)

lemma originDistance_huge: "originDistance Binary64 (point huge 0 0) = PInf"
  by (simp add: originDistance_def point_def fl_huge)

lemma maxDistance_hugeHand: "maxDistance Binary64 hugeHand = PInf"
  by (simp add: maxDistance_def normalized_hugeHand)
     (simp add: hugeHand_def originDistance_origin originDistance_huge jsGt_def Math_max_def)

lemma normalizeLandmarks_hugeHand: "normalizeLandmarks Binary64 hugeHand = hugeHand"
  by (simp add: normalizeLandmarks_def maxDistance_hugeHand normalized_hugeHand)

lemma euclideanDistance_huge:
  "euclideanDistance Binary64 (coords (point huge 0 0)) (coords origin) = PInf"
  by (simp add: euclideanDistance_def coords_def origin_def point_def jsSub_def fl_huge)

lemma rawCoordinates_hugeHand:
  "rawCoordinates hugeHand = replicate 60 (Fin 0) @ [Fin huge, Fin 0, Fin 0]"
  by (simp add: rawCoordinates_def hugeHand_def coords_def origin_def point_def numeral_eq_Suc)

lemma tipDistances_hugeHand:
  "tipDistances Binary64 hugeHand = [Fin 0, Fin 0, Fin 0, Fin 0, PInf]"
  by (simp add: tipDistances_def fingerTips_def fingerBases_def nth_hugeHand
      euclideanDistance_origin euclideanDistance_huge upt_rec)

lemma palmDistances_hugeHand: "palmDistances Binary64 hugeHand = replicate 15 (Fin 0)"
  by (simp add: palmDistances_def palmPoints_def nth_hugeHand euclideanDistance_origin upt_rec
      numeral_eq_Suc)

lemma jointAngles_hugeHand: "jointAngles Binary64 hugeHand = replicate 19 (Fin 0)"
  by (simp add: jointAngles_def nth_hugeHand calculateAngle_origin upt_rec numeral_eq_Suc)

text \<open>
  C2, as the claim states it: every sample of 21 landmarks with finite coordinates has a
  feature vector of length 102. It fails in double arithmetic for a sample with the
  coordinate \<open>2 ^ 600\<close>, whose square is infinite: the distance from the last fingertip
  to its base is infinite and is filtered out, which leaves 101 values.
\<close>

theorem extractFeatures_overflow:
  "list_all finiteLandmark hugeHand \<and> length hugeHand = 21
   \<and> extractFeatures Binary64 (normalizeLandmarks Binary64 hugeHand)
       = Inr (replicate 60 (Fin 0) @ [Fin huge, Fin 0, Fin 0] @ replicate 38 (Fin 0))
   \<and> length (replicate 60 (Fin 0) @ [Fin huge, Fin 0, Fin 0] @ replicate 38 (Fin 0 :: number))
       = 101"
proof -
  have "filter finiteFeature (replicate 60 (Fin 0) @ [Fin huge, Fin 0, Fin 0]
      @ [Fin 0, Fin 0, Fin 0, Fin 0, PInf] @ replicate 15 (Fin 0) @ replicate 19 (Fin 0))
    = replicate 60 (Fin 0) @ [Fin huge, Fin 0, Fin 0] @ replicate 4 (Fin 0)
      @ replicate 15 (Fin 0) @ replicate 19 (Fin 0)"
    by (simp add: finiteFeature_def numeral_eq_Suc)
  also have "\<dots> = replicate 60 (Fin 0) @ [Fin huge, Fin 0, Fin 0] @ replicate 38 (Fin 0)"
    by (simp flip: replicate_add)
  finally have "extractFeatures Binary64 (normalizeLandmarks Binary64 hugeHand)
       = Inr (replicate 60 (Fin 0) @ [Fin huge, Fin 0, Fin 0] @ replicate 38 (Fin 0))"
    by (simp add: extractFeatures_def normalizeLandmarks_hugeHand rawCoordinates_hugeHand
        tipDistances_hugeHand palmDistances_hugeHand jointAngles_hugeHand nth_hugeHand)
  moreover have "list_all finiteLandmark hugeHand"
    by (simp add: hugeHand_def list_all_iff finiteLandmark_def origin_def point_def)
  ultimately show ?thesis
    by (simp add: nth_hugeHand)
qed

lemma small_unitHand: "\<forall>p\<in>set unitHand. smallLandmark a COORDINATE_BOUND p"
  by (auto simp: unitHand_def smallLandmark_def small_def origin_def point_def
      COORDINATE_BOUND_def)

theorem extractFeatures_composition_witness:
  "length unitHand = 21
   \<and> (\<exists>fs. extractFeatures Binary64 (normalizeLandmarks Binary64 unitHand) = Inr fs
         \<and> length fs = 102)"
proof -
  have l: "length unitHand = 21"
    by (simp add: unitHand_def)
  from extractFeatures_composition [OF l small_unitHand, of Binary64] l show ?thesis
    by blast
qed

section \<open>Rounding to the nearest double, facts\<close>

lemma rne_cases: "rne x = \<lfloor>x\<rfloor> \<or> rne x = \<lfloor>x\<rfloor> + 1"
  by (simp add: rne_def Let_def)

lemma rne_error: "\<bar>of_int (rne x) - x\<bar> \<le> 1 / 2"
proof -
  have "of_int \<lfloor>x\<rfloor> \<le> x" "x < of_int \<lfloor>x\<rfloor> + 1"
    by linarith+
  then show ?thesis
    by (auto simp: rne_def Let_def) 
qed

lemma rne_unique: "\<bar>x - of_int q\<bar> < 1 / 2 \<Longrightarrow> rne x = q"
proof -
  assume a: "\<bar>x - of_int q\<bar> < 1 / 2"
  have f: "of_int \<lfloor>x\<rfloor> \<le> x" "x < of_int \<lfloor>x\<rfloor> + 1"
    by linarith+
  have b: "x < of_int q + 1 / 2" "of_int q - 1 / 2 < x"
    using a by linarith+
  have "of_int (q - 1) \<le> x" "x < of_int (q + 1)"
    using b by simp_all
  then have "q - 1 \<le> \<lfloor>x\<rfloor>" "\<lfloor>x\<rfloor> < q + 1"
    by (simp_all only: le_floor_iff floor_less_iff)
  then have "\<lfloor>x\<rfloor> = q \<or> \<lfloor>x\<rfloor> = q - 1"
    by linarith
  then show ?thesis
    using b f by (auto simp: rne_def Let_def)
qed

lemma rne_of_int [simp]: "rne (of_int q) = q"
  by (rule rne_unique) simp

lemma rne_lower: "of_int l \<le> x \<Longrightarrow> l \<le> rne x"
proof -
  assume "of_int l \<le> x"
  then have "l \<le> \<lfloor>x\<rfloor>" by (simp add: le_floor_iff)
  then show ?thesis using rne_cases [of x] by auto
qed

lemma rne_upper: "x \<le> of_int h \<Longrightarrow> rne x \<le> h"
proof (cases "x = of_int h")
  case True
  then show ?thesis by simp
next
  case False
  assume "x \<le> of_int h"
  then have "x < of_int h" using False by simp
  then have "\<lfloor>x\<rfloor> < h" by (simp add: floor_less_iff)
  then show ?thesis using rne_cases [of x] by auto
qed

lemma powr_powi: "2 powr real_of_int k = (2::real) powi k"
  by (simp add: powr_real_of_int')

lemma binade:
  assumes "0 < x"
  shows "2 powi \<lfloor>log 2 x\<rfloor> \<le> x" and "x < 2 powi (\<lfloor>log 2 x\<rfloor> + 1)"
proof -
  have "2 powi \<lfloor>log 2 x\<rfloor> \<le> x \<and> x < 2 powi (\<lfloor>log 2 x\<rfloor> + 1)"
    using floor_log_eq_powr_iff [of x 2 "\<lfloor>log 2 x\<rfloor>", unfolded powr_powi] assms by simp
  then show "2 powi \<lfloor>log 2 x\<rfloor> \<le> x" and "x < 2 powi (\<lfloor>log 2 x\<rfloor> + 1)"
    by simp_all
qed

lemma floor_log_eq:
  assumes "2 powi k \<le> x" and "x < 2 powi (k + 1)"
  shows "\<lfloor>log 2 x\<rfloor> = k"
proof -
  have "(0::real) < 2 powi k"
    by (rule zero_less_power_int) simp
  then have "0 < x"
    using assms(1) by linarith
  then show ?thesis
    using floor_log_eq_powr_iff [of x 2 k, unfolded powr_powi] assms by simp
qed

lemma powi_pos [simp]: "(0::real) < 2 powi k"
  by (rule zero_less_power_int) simp

lemma powi_le_iff: "(2::real) powi m \<le> 2 powi n \<longleftrightarrow> m \<le> n"
proof
  assume a: "(2::real) powi m \<le> 2 powi n"
  show "m \<le> n"
  proof (rule ccontr)
    assume "\<not> m \<le> n"
    then have "(2::real) powi n < 2 powi m"
      by (intro power_int_strict_increasing) simp_all
    then show False using a by simp
  qed
next
  assume "m \<le> n"
  then show "(2::real) powi m \<le> 2 powi n"
    by (intro power_int_increasing) simp_all
qed

lemma powi_less_iff: "(2::real) powi m < 2 powi n \<longleftrightarrow> m < n"
  using powi_le_iff [of n m] by (simp add: not_le [symmetric])

lemma powi_split: "(2::real) powi (m + n) = 2 powi m * 2 powi n"
  by (rule power_int_add) simp

lemma exponent_normal:
  assumes "- 1022 \<le> a" and "2 powi a \<le> \<bar>r\<bar>"
  shows "exponent r = \<lfloor>log 2 \<bar>r\<bar>\<rfloor>" and "a \<le> \<lfloor>log 2 \<bar>r\<bar>\<rfloor>"
proof -
  have pos: "0 < \<bar>r\<bar>"
    using assms(2) powi_pos [of a] by linarith
  have "2 powi a < (2::real) powi (\<lfloor>log 2 \<bar>r\<bar>\<rfloor> + 1)"
    using binade(2) [OF pos] assms(2) by linarith
  then have "a < \<lfloor>log 2 \<bar>r\<bar>\<rfloor> + 1"
    by (simp only: powi_less_iff)
  then show "a \<le> \<lfloor>log 2 \<bar>r\<bar>\<rfloor>"
    by simp
  then show "exponent r = \<lfloor>log 2 \<bar>r\<bar>\<rfloor>"
    using assms(1) by (simp add: exponent_def)
qed

lemma nearest_normal:
  assumes "- 1022 \<le> a" and "2 powi a \<le> \<bar>r\<bar>"
  shows "\<bar>nearest r - r\<bar> \<le> 2 powi (\<lfloor>log 2 \<bar>r\<bar>\<rfloor> - 53)"
    and "2 powi \<lfloor>log 2 \<bar>r\<bar>\<rfloor> \<le> \<bar>nearest r\<bar>"
    and "\<bar>nearest r\<bar> \<le> 2 powi (\<lfloor>log 2 \<bar>r\<bar>\<rfloor> + 1)"
    and "sgn (nearest r) = sgn r"
proof -
  define e where "e = \<lfloor>log 2 \<bar>r\<bar>\<rfloor>"
  define u :: real where "u = 2 powi (e - 52)"
  define x where "x = \<bar>r\<bar> / u"
  define q where "q = rne x"
  have pos: "0 < \<bar>r\<bar>"
    using assms(2) powi_pos [of a] by linarith
  have ex: "exponent r = e"
    using exponent_normal(1) [OF assms] by (simp add: e_def)
  have u: "0 < u" "ulp r = u"
    by (simp_all add: u_def ulp_def ex)
  have lo: "2 powi e \<le> \<bar>r\<bar>" and hi: "\<bar>r\<bar> < 2 powi (e + 1)"
    using binade [OF pos] by (simp_all add: e_def)
  have e1: "(2::real) powi e = 2 ^ 52 * u"
    using powi_split [of 52 "e - 52"] by (simp add: u_def)
  have e2: "(2::real) powi (e + 1) = 2 ^ 53 * u"
    using powi_split [of 53 "e - 52"] by (simp add: u_def add.commute)
  have e3: "(2::real) powi (e - 53) = u / 2"
    using powi_split [of "- 1" "e - 52"] by (simp add: u_def)
  have r: "\<bar>r\<bar> = x * u"
    using u(1) by (simp add: x_def)
  have x: "2 ^ 52 \<le> x" "x < 2 ^ 53"
    using lo hi u(1) unfolding e1 e2 r by simp_all
  have xi: "of_int (2 ^ 52) \<le> x" "x \<le> of_int (2 ^ 53)"
    using x by simp_all
  have q: "2 ^ 52 \<le> q" "q \<le> 2 ^ 53"
    unfolding q_def using xi(1) rne_lower apply blast using xi(2) rne_upper by blast
  then have qr: "2 ^ 52 \<le> (of_int q :: real)" "(of_int q :: real) \<le> 2 ^ 53"
    by (metis of_int_le_iff of_int_numeral of_int_power)+
  have n: "nearest r = sgn r * (of_int q * u)"
    by (simp add: nearest_def u(2) q_def x_def)
  have qu: "0 < of_int q * u"
    using qr(1) u(1) by (simp add: zero_less_mult_iff) 
  have sg: "\<bar>sgn r\<bar> = 1"
    using pos by (simp add: abs_sgn_eq)
  have abs: "\<bar>nearest r\<bar> = of_int q * u"
  proof -
    have "\<bar>nearest r\<bar> = \<bar>of_int q * u\<bar>"
      unfolding n abs_mult sg by simp
    then show ?thesis
      using qu by simp
  qed
  show "2 powi \<lfloor>log 2 \<bar>r\<bar>\<rfloor> \<le> \<bar>nearest r\<bar>"
    unfolding e_def [symmetric] abs e1 using qr(1) u(1) by simp
  show "\<bar>nearest r\<bar> \<le> 2 powi (\<lfloor>log 2 \<bar>r\<bar>\<rfloor> + 1)"
    unfolding e_def [symmetric] abs e2 using qr(2) u(1) by simp
  have "sgn (of_int q * u) = 1"
    using qu by (simp only: sgn_1_pos)
  then show "sgn (nearest r) = sgn r"
    unfolding n by (simp only: sgn_mult sgn_sgn mult_1_right)
  have "r = sgn r * \<bar>r\<bar>"
    by (simp add: mult_sgn_abs)
  then have "r = sgn r * (x * u)"
    unfolding r .
  then have "nearest r - r = sgn r * ((of_int q - x) * u)"
    unfolding n by (simp add: algebra_simps)
  then have "\<bar>nearest r - r\<bar> = \<bar>sgn r\<bar> * \<bar>(of_int q - x) * u\<bar>"
    by (simp only: abs_mult)
  also have "\<dots> = \<bar>of_int q - x\<bar> * u"
    using u(1) pos by (simp add: abs_mult abs_sgn_eq)
  also have "\<dots> \<le> 1 / 2 * u"
    using rne_error [of x] u(1) unfolding q_def by (intro mult_right_mono) simp_all
  finally show "\<bar>nearest r - r\<bar> \<le> 2 powi (\<lfloor>log 2 \<bar>r\<bar>\<rfloor> - 53)"
    unfolding e_def [symmetric] e3 by simp
qed

lemma nearest_zero [simp]: "nearest 0 = 0"
  by (simp add: nearest_def)

text \<open>The relative error of rounding a number that is zero or in the normal range.\<close>

lemma nearest_relative:
  assumes "- 1022 \<le> a" and "r = 0 \<or> 2 powi a \<le> \<bar>r\<bar>"
  shows "\<bar>nearest r - r\<bar> \<le> \<bar>r\<bar> / 2 ^ 53" and "sgn (nearest r) = sgn r"
proof -
  show "sgn (nearest r) = sgn r"
  proof (cases "r = 0")
    case True
    then show ?thesis by simp
  next
    case False
    then have "2 powi a \<le> \<bar>r\<bar>"
      using assms(2) by simp
    with assms(1) show ?thesis
      by (rule nearest_normal(4))
  qed
  show "\<bar>nearest r - r\<bar> \<le> \<bar>r\<bar> / 2 ^ 53"
  proof (cases "r = 0")
    case True
    then show ?thesis by simp
  next
    case False
    then have n: "2 powi a \<le> \<bar>r\<bar>"
      using assms(2) by simp
    define e where "e = \<lfloor>log 2 \<bar>r\<bar>\<rfloor>"
    have pos: "0 < \<bar>r\<bar>"
      using False by simp
    have "\<bar>nearest r - r\<bar> \<le> 2 powi (e - 53)"
      unfolding e_def using assms(1) n by (rule nearest_normal(1))
    also have "(2::real) powi (e - 53) = 2 powi e * 2 powi (- 53)"
      using powi_split [of e "- 53"] by simp
    also have "\<dots> \<le> \<bar>r\<bar> * 2 powi (- 53)"
      using binade(1) [OF pos] by (intro mult_right_mono) (simp_all add: e_def)
    also have "\<dots> = \<bar>r\<bar> / 2 ^ 53"
      by (simp only: power_int_minus_divide power_int_numeral times_divide_eq_right mult_1_right)
    finally show ?thesis .
  qed
qed

text \<open>A number whose quotient by its unit in the last place is an integer is a double.\<close>

lemma nearest_exact:
  assumes "\<bar>r\<bar> / ulp r = of_int q"
  shows "nearest r = r"
proof -
  have "0 < ulp r"
    by (simp add: ulp_def)
  then have "of_int q * ulp r = \<bar>r\<bar>"
    using assms by (simp add: field_simps)
  then have "nearest r = sgn r * \<bar>r\<bar>"
    unfolding nearest_def assms by simp
  then show ?thesis
    by (simp only: mult_sgn_abs)
qed

lemma powi_nat: "0 \<le> k \<Longrightarrow> (2::real) powi k = of_int (2 ^ nat k)"
  by (simp add: power_int_def)

lemma nearest_representable:
  assumes "\<bar>m\<bar> < 2 ^ 53" and "- 1074 \<le> e"
  shows "nearest (of_int m * 2 powi e) = of_int m * 2 powi e"
proof (cases "m = 0")
  case True
  then show ?thesis by simp
next
  case False
  define r :: real where "r = of_int m * 2 powi e"
  have abs: "\<bar>r\<bar> = of_int \<bar>m\<bar> * 2 powi e"
    by (simp add: r_def abs_mult)
  have pos: "0 < \<bar>r\<bar>"
    using False by (simp add: r_def)
  have "of_int \<bar>m\<bar> < (2::real) ^ 53"
    using assms(1) by (metis of_int_less_iff of_int_numeral of_int_power)
  then have "\<bar>r\<bar> < 2 ^ 53 * 2 powi e"
    unfolding abs by (intro mult_strict_right_mono) simp_all
  also have "\<dots> = 2 powi (e + 53)"
    using powi_split [of 53 e] by (simp add: add.commute)
  finally have "(2::real) powi \<lfloor>log 2 \<bar>r\<bar>\<rfloor> < 2 powi (e + 53)"
    using binade(1) [OF pos] by linarith
  then have f: "\<lfloor>log 2 \<bar>r\<bar>\<rfloor> < e + 53"
    by (simp only: powi_less_iff)
  then have ex: "exponent r \<le> e + 52"
    using assms(2) by (simp add: exponent_def)
  define k where "k = e + 52 - exponent r"
  have k: "0 \<le> k"
    using ex by (simp add: k_def)
  have "e = k + (exponent r - 52)"
    by (simp add: k_def)
  then have "(2::real) powi e = 2 powi k * ulp r"
    unfolding ulp_def using powi_split [of k "exponent r - 52"] by simp
  then have "\<bar>r\<bar> / ulp r = of_int \<bar>m\<bar> * 2 powi k"
    unfolding abs by (simp add: ulp_def)
  also have "\<dots> = of_int (\<bar>m\<bar> * 2 ^ nat k)"
    using k by (simp add: powi_nat)
  finally show ?thesis
    unfolding r_def [symmetric] by (rule nearest_exact)
qed

text \<open>A number below the normal range is rounded to a multiple of the least double.\<close>

lemma nearest_subnormal:
  assumes "\<bar>r\<bar> < 2 powi (- 1022)" and "\<bar>\<bar>r\<bar> / 2 powi (- 1074) - of_int q\<bar> < 1 / 2"
  shows "nearest r = sgn r * (of_int q * 2 powi (- 1074))"
proof (cases "r = 0")
  case True
  then show ?thesis by simp
next
  case False
  then have pos: "0 < \<bar>r\<bar>"
    by simp
  have "(2::real) powi \<lfloor>log 2 \<bar>r\<bar>\<rfloor> < 2 powi (- 1022)"
    using binade(1) [OF pos] assms(1) by linarith
  then have "\<lfloor>log 2 \<bar>r\<bar>\<rfloor> < - 1022"
    by (simp only: powi_less_iff)
  then have "exponent r = - 1022"
    by (simp add: exponent_def)
  then have u: "ulp r = 2 powi (- 1074)"
    by (simp add: ulp_def)
  show ?thesis
    unfolding nearest_def u using rne_unique [OF assms(2)] by simp
qed

text \<open>A number from \<open>2 ^ 1024\<close> on is rounded beyond the greatest double.\<close>

lemma nearest_overflow:
  assumes "2 powi 1024 \<le> \<bar>r\<bar>"
  shows "2 powi 1024 \<le> \<bar>nearest r\<bar>"
proof -
  have "(2::real) powi 1024 \<le> 2 powi \<lfloor>log 2 \<bar>r\<bar>\<rfloor>"
    using exponent_normal(2) [of 1024 r] assms by (simp only: powi_le_iff)
  then show ?thesis
    using nearest_normal(2) [of 1024 r] assms by simp
qed

lemma MAX_VALUE_powi: "2 powi 1023 \<le> MAX_VALUE" "MAX_VALUE < 2 powi 1024"
proof -
  have "(2::real) ^ 971 \<le> 2 ^ 1023"
    by (rule power_increasing) simp_all
  moreover have "(2::real) ^ 1024 = 2 * 2 ^ 1023"
    by simp
  moreover have "(0::real) < 2 ^ 971"
    by simp
  ultimately show "2 powi 1023 \<le> MAX_VALUE" "MAX_VALUE < 2 powi 1024"
    unfolding MAX_VALUE_def by (simp_all only: power_int_numeral)
qed

lemma double_zero [simp]: "double 0 = Fin 0"
  using MAX_VALUE_pos by (simp add: double_def)

text \<open>A number that is zero, or in the normal range and at most \<open>2 ^ 1022\<close>, is rounded to a
  double.\<close>

lemma double_finite:
  assumes "- 1022 \<le> a" and "r = 0 \<or> 2 powi a \<le> \<bar>r\<bar>" and "\<bar>r\<bar> \<le> 2 powi 1022"
  shows "double r = Fin (nearest r)"
proof -
  have "\<bar>nearest r - r\<bar> \<le> \<bar>r\<bar> / 2 ^ 53"
    using assms(1,2) by (rule nearest_relative(1))
  also have "\<dots> \<le> \<bar>r\<bar>"
    by (simp add: divide_le_eq)
  finally have "\<bar>nearest r\<bar> \<le> 2 * \<bar>r\<bar>"
    by linarith
  also have "\<dots> \<le> 2 * 2 powi 1022"
    using assms(3) by simp
  also have "\<dots> = 2 powi 1023"
    using powi_split [of 1 1022] by simp
  finally show ?thesis
    using MAX_VALUE_powi(1) by (simp add: double_def)
qed

lemma double_representable:
  assumes "\<bar>m\<bar> < 2 ^ 53" and "- 1074 \<le> e" and "e \<le> 970"
  shows "double (of_int m * 2 powi e) = Fin (of_int m * 2 powi e)"
proof -
  have "of_int \<bar>m\<bar> \<le> (2::real) ^ 53"
    using assms(1) by (metis of_int_le_iff of_int_numeral of_int_power less_imp_le)
  then have "of_int \<bar>m\<bar> * 2 powi e \<le> 2 ^ 53 * (2::real) powi e"
    by (intro mult_right_mono) simp_all
  also have "\<dots> = 2 powi (e + 53)"
    using powi_split [of 53 e] by (simp add: add.commute)
  also have "\<dots> \<le> 2 powi 1023"
    using assms(3) by (simp only: powi_le_iff)
  finally have "\<bar>of_int m * 2 powi e\<bar> \<le> MAX_VALUE"
    using MAX_VALUE_powi(1) by (simp add: abs_mult)
  then show ?thesis
    by (simp add: double_def nearest_representable [OF assms(1,2)])
qed

lemma double_overflow:
  assumes "2 powi 1024 \<le> r"
  shows "double r = PInf"
proof -
  have r: "0 < r"
    using assms powi_pos [of 1024] by linarith
  then have "2 powi 1024 \<le> \<bar>r\<bar>"
    using assms by simp
  from nearest_overflow [OF this] have "MAX_VALUE < \<bar>nearest r\<bar>"
    using MAX_VALUE_powi(2) by linarith
  then show ?thesis
    using r by (simp add: double_def inf_of_sign_def)
qed

lemma double_underflow:
  assumes "0 \<le> r" and "r < 2 powi (- 1022)" and "\<bar>r / 2 powi (- 1074) - of_int q\<bar> < 1 / 2"
    and "0 \<le> q" and "q \<le> 2 ^ 53"
  shows "double r = Fin (of_int q * 2 powi (- 1074))"
proof -
  have a: "\<bar>r\<bar> < 2 powi (- 1022)" "\<bar>\<bar>r\<bar> / 2 powi (- 1074) - of_int q\<bar> < 1 / 2"
    using assms(1,2,3) by simp_all
  have n: "nearest r = sgn r * (of_int q * 2 powi (- 1074))"
    using a by (rule nearest_subnormal)
  have z: "nearest r = of_int q * 2 powi (- 1074)"
  proof (cases "r = 0")
    case True
    then have "\<bar>of_int q :: real\<bar> < 1 / 2"
      using assms(3) by simp
    then have "q = 0"
      by linarith
    then show ?thesis
      using True by simp
  next
    case False
    then have "sgn r = 1"
      using assms(1) by (simp add: sgn_1_pos)
    then show ?thesis
      using n by simp
  qed
  have "of_int q \<le> (2::real) ^ 53"
    using assms(5) by (metis of_int_le_iff of_int_numeral of_int_power)
  then have "of_int q * 2 powi (- 1074) \<le> 2 ^ 53 * (2::real) powi (- 1074)"
    by (intro mult_right_mono) simp_all
  also have "\<dots> = 2 powi (- 1021)"
    using powi_split [of 53 "- 1074"] by simp
  also have "\<dots> \<le> 2 powi 1023"
    by (simp only: powi_le_iff)
  finally have "\<bar>of_int q * 2 powi (- 1074)\<bar> \<le> MAX_VALUE"
    using MAX_VALUE_powi(1) assms(4) by (simp add: abs_mult)
  then show ?thesis
    by (simp add: double_def z)
qed


lemma double_huge: "double huge = Fin huge"
proof -
  have "huge = of_int 1 * 2 powi 600"
    unfolding huge_def by (simp only: power_int_numeral of_int_1 mult_1)
  then show ?thesis
    using double_representable [of 1 600] by simp
qed

lemma double_huge_square: "double (huge * huge) = PInf"
proof -
  have "huge * huge = 2 powi 600 * 2 powi 600"
    unfolding huge_def by (simp only: power_int_numeral)
  also have "\<dots> = 2 powi 1200"
    using powi_split [of 600 600] by simp
  finally have "2 powi 1024 \<le> huge * huge"
    by (simp only: powi_le_iff)
  then show ?thesis
    by (rule double_overflow)
qed

section \<open>The accuracy of rounded arithmetic\<close>

lemma roundoff_bounds:
  "0 < roundoff" "roundoff \<le> 1 / 16" "0 < 1 - roundoff" "1 - roundoff \<le> 1" "1 \<le> 1 + roundoff"
  by (simp_all add: roundoff_def)

lemma accurate_nonneg: "accurate n x y \<Longrightarrow> 0 \<le> y \<Longrightarrow> 0 \<le> x"
proof -
  assume a: "accurate n x y" and y: "0 \<le> y"
  have "0 \<le> (1 - roundoff) ^ n * y"
    using roundoff_bounds(3) y by simp
  then show ?thesis
    using a by (simp add: accurate_def)
qed

lemma accurate_zero_iff: "accurate n x y \<Longrightarrow> 0 \<le> y \<Longrightarrow> x = 0 \<longleftrightarrow> y = 0"
proof -
  assume a: "accurate n x y" and y: "0 \<le> y"
  have p: "0 < (1 - roundoff) ^ n"
    using roundoff_bounds(3) by simp
  show ?thesis
  proof
    assume "x = 0"
    then have "(1 - roundoff) ^ n * y \<le> 0"
      using a by (simp add: accurate_def)
    then have "y \<le> 0"
      using p by (simp add: mult_le_0_iff)
    then show "y = 0"
      using y by simp
  next
    assume "y = 0"
    then show "x = 0"
      using a by (simp add: accurate_def)
  qed
qed

lemma accurate_refl: "accurate 0 y y"
  by (simp add: accurate_def)

lemma accurate_mono:
  assumes "accurate n x y" and "n \<le> m" and "0 \<le> y"
  shows "accurate m x y"
proof -
  have "(1 - roundoff) ^ m \<le> (1 - roundoff) ^ n"
    using assms(2) roundoff_bounds by (intro power_decreasing) simp_all
  then have 1: "(1 - roundoff) ^ m * y \<le> (1 - roundoff) ^ n * y"
    using assms(3) by (rule mult_right_mono)
  have "(1 + roundoff) ^ n \<le> (1 + roundoff) ^ m"
    using assms(2) roundoff_bounds by (intro power_increasing) simp_all
  then have 2: "(1 + roundoff) ^ n * y \<le> (1 + roundoff) ^ m * y"
    using assms(3) by (rule mult_right_mono)
  show ?thesis
    using assms(1) 1 2 by (simp add: accurate_def)
qed

lemma accurate_add:
  "accurate n x1 y1 \<Longrightarrow> accurate n x2 y2 \<Longrightarrow> accurate n (x1 + x2) (y1 + y2)"
  by (simp add: accurate_def distrib_left)

text \<open>Rounding a number that is not negative, and is zero or in the normal range.\<close>

lemma nearest_nonneg:
  assumes "- 1022 \<le> a" and "r = 0 \<or> 2 powi a \<le> r"
  shows "(1 - roundoff) * r \<le> nearest r" and "nearest r \<le> (1 + roundoff) * r"
proof -
  have r: "0 \<le> r"
    using assms(2) powi_pos [of a] by linarith
  then have "r = 0 \<or> 2 powi a \<le> \<bar>r\<bar>"
    using assms(2) by simp
  from nearest_relative(1) [OF assms(1) this]
  have "\<bar>nearest r - r\<bar> \<le> roundoff * r"
    using r by (simp add: roundoff_def)
  then show "(1 - roundoff) * r \<le> nearest r" and "nearest r \<le> (1 + roundoff) * r"
    by (simp_all add: algebra_simps abs_le_iff)
qed

lemma accurate_nearest:
  assumes "accurate n r y" and "0 \<le> y" and "- 1022 \<le> a" and "r = 0 \<or> 2 powi a \<le> r"
  shows "accurate (Suc n) (nearest r) y"
proof -
  note b = nearest_nonneg [OF assms(3,4)]
  have "(1 - roundoff) * ((1 - roundoff) ^ n * y) \<le> (1 - roundoff) * r"
    using assms(1) roundoff_bounds(3) by (intro mult_left_mono) (simp_all add: accurate_def)
  moreover have "(1 + roundoff) * r \<le> (1 + roundoff) * ((1 + roundoff) ^ n * y)"
    using assms(1) roundoff_bounds(5) by (intro mult_left_mono) (simp_all add: accurate_def)
  ultimately show ?thesis
    using b by (simp add: accurate_def mult.assoc)
qed

lemma accurate_abs_nearest:
  assumes "- 1022 \<le> a" and "r = 0 \<or> 2 powi a \<le> \<bar>r\<bar>"
  shows "accurate 1 \<bar>nearest r\<bar> \<bar>r\<bar>"
proof -
  from nearest_relative(1) [OF assms]
  have "\<bar>nearest r - r\<bar> \<le> roundoff * \<bar>r\<bar>"
    by (simp add: roundoff_def)
  then have "\<bar>\<bar>nearest r\<bar> - \<bar>r\<bar>\<bar> \<le> roundoff * \<bar>r\<bar>"
    using abs_triangle_ineq3 [of "nearest r" r] by linarith
  then show ?thesis
    by (simp add: accurate_def algebra_simps abs_le_iff)
qed

lemma accurate_square:
  assumes "accurate 1 \<bar>c\<bar> \<bar>d\<bar>"
  shows "accurate 2 (c * c) (d * d)"
proof -
  have l: "(1 - roundoff) * \<bar>d\<bar> \<le> \<bar>c\<bar>" and h: "\<bar>c\<bar> \<le> (1 + roundoff) * \<bar>d\<bar>"
    using assms by (simp_all add: accurate_def)
  have "0 \<le> (1 - roundoff) * \<bar>d\<bar>"
    using roundoff_bounds(3) by simp
  then have "((1 - roundoff) * \<bar>d\<bar>) * ((1 - roundoff) * \<bar>d\<bar>) \<le> \<bar>c\<bar> * \<bar>c\<bar>"
    using l by (intro mult_mono) simp_all
  moreover have "\<bar>c\<bar> * \<bar>c\<bar> \<le> ((1 + roundoff) * \<bar>d\<bar>) * ((1 + roundoff) * \<bar>d\<bar>)"
    using h by (intro mult_mono) simp_all
  moreover have "\<bar>c\<bar> * \<bar>c\<bar> = c * c" "\<bar>d\<bar> * \<bar>d\<bar> = d * d"
    by simp_all
  ultimately show ?thesis
    by (simp add: accurate_def power2_eq_square algebra_simps)
qed

lemma sqrt_power_even: "0 \<le> c \<Longrightarrow> sqrt (c ^ (2 * n)) = c ^ n"
proof -
  assume c: "0 \<le> c"
  have "c ^ (2 * n) = (c ^ n)\<^sup>2"
    by (simp add: power_mult [symmetric] mult.commute)
  then have "sqrt (c ^ (2 * n)) = \<bar>c ^ n\<bar>"
    by (simp only: real_sqrt_abs)
  then show ?thesis
    using c by simp
qed

lemma accurate_sqrt:
  assumes "accurate (2 * n) x y" and "0 \<le> y"
  shows "accurate n (sqrt x) (sqrt y)"
proof -
  have "sqrt ((1 - roundoff) ^ (2 * n) * y) \<le> sqrt x"
    using assms(1) by (simp add: accurate_def)
  moreover have "sqrt ((1 - roundoff) ^ (2 * n) * y) = (1 - roundoff) ^ n * sqrt y"
    using roundoff_bounds(3) by (simp only: real_sqrt_mult sqrt_power_even less_imp_le)
  moreover have "sqrt x \<le> sqrt ((1 + roundoff) ^ (2 * n) * y)"
    using assms(1) by (simp add: accurate_def)
  moreover have "sqrt ((1 + roundoff) ^ (2 * n) * y) = (1 + roundoff) ^ n * sqrt y"
    using roundoff_bounds(3,5) by (simp only: real_sqrt_mult sqrt_power_even)
  ultimately show ?thesis
    by (simp add: accurate_def)
qed

lemma accurate_bounds:
  assumes "accurate n x y" and "n \<le> 8" and "0 \<le> y"
  shows "y / 2 \<le> x" and "x \<le> 2 * y"
proof -
  have a: "accurate 8 x y"
    using assms by (rule accurate_mono)
  have "(1 + roundoff) ^ 8 \<le> (17 / 16) ^ 8"
    using roundoff_bounds by (intro power_mono) simp_all
  also have "\<dots> \<le> (2::real)"
    by (simp add: power_divide)
  finally have "(1 + roundoff) ^ 8 * y \<le> 2 * y"
    using assms(3) by (rule mult_right_mono)
  then show "x \<le> 2 * y"
    using a by (simp add: accurate_def)
  have "(15 / 16) ^ 8 \<le> (1 - roundoff) ^ 8"
    using roundoff_bounds by (intro power_mono) simp_all
  moreover have "1 / 2 \<le> (15 / 16 :: real) ^ 8"
    by (simp add: power_divide)
  ultimately have "1 / 2 \<le> (1 - roundoff) ^ 8"
    by linarith
  then have "1 / 2 * y \<le> (1 - roundoff) ^ 8 * y"
    using assms(3) by (rule mult_right_mono)
  then show "y / 2 \<le> x"
    using a by (simp add: accurate_def)
qed

lemma double_accurate:
  assumes "accurate n r y" and "n \<le> 7" and "ranged l h y" and "- 1021 \<le> l" and "h \<le> 1021"
  shows "double r = Fin (nearest r)" and "accurate (Suc n) (nearest r) y"
proof -
  have y: "0 \<le> y" "y = 0 \<or> 2 powi l \<le> y" "y \<le> 2 powi h"
    using assms(3) by (simp_all add: ranged_def)
  have r: "0 \<le> r"
    using assms(1) y(1) by (rule accurate_nonneg)
  have n: "n \<le> 8"
    using assms(2) by simp
  note b = accurate_bounds [OF assms(1) n y(1)]
  have half: "(2::real) powi (l - 1) = 2 powi l / 2"
    using powi_split [of "- 1" l] by simp
  have twice: "(2::real) powi (h + 1) = 2 * 2 powi h"
    using powi_split [of 1 h] by (simp add: add.commute)
  have low: "r = 0 \<or> 2 powi (l - 1) \<le> r"
  proof (cases "y = 0")
    case True
    then show ?thesis
      using accurate_zero_iff [OF assms(1) y(1)] by simp
  next
    case False
    then have "2 powi l \<le> y"
      using y(2) by simp
    then show ?thesis
      unfolding half using b(1) by simp
  qed
  have "r \<le> 2 powi (h + 1)"
    unfolding twice using b(2) y(3) by simp
  also have "\<dots> \<le> 2 powi 1022"
    using assms(5) by (simp only: powi_le_iff)
  finally have high: "\<bar>r\<bar> \<le> 2 powi 1022"
    using r by simp
  have l1: "- 1022 \<le> l - 1"
    using assms(4) by simp
  have "r = 0 \<or> 2 powi (l - 1) \<le> \<bar>r\<bar>"
    using low r by simp
  with l1 show "double r = Fin (nearest r)"
    using high by (rule double_finite)
  show "accurate (Suc n) (nearest r) y"
    using assms(1) y(1) l1 low by (rule accurate_nearest)
qed

lemma ranged_mono: "ranged l h y \<Longrightarrow> h \<le> h' \<Longrightarrow> ranged l h' y"
proof -
  assume a: "ranged l h y" and "h \<le> h'"
  then have "(2::real) powi h \<le> 2 powi h'"
    by (simp only: powi_le_iff)
  then show ?thesis
    using a by (auto simp: ranged_def)
qed

lemma ranged_add:
  assumes "ranged l h y1" and "ranged l h y2"
  shows "ranged l (h + 1) (y1 + y2)"
proof -
  have twice: "(2::real) powi (h + 1) = 2 * 2 powi h"
    using powi_split [of 1 h] by (simp add: add.commute)
  show ?thesis
    unfolding ranged_def twice using assms by (auto simp: ranged_def)
qed

lemma ranged_square:
  assumes "moderate d"
  shows "ranged (- 1000) 1000 (d * d)"
proof (cases "d = 0")
  case True
  then show ?thesis by (simp add: ranged_def)
next
  case False
  then have m: "2 powi (- 500) \<le> \<bar>d\<bar>" "\<bar>d\<bar> \<le> 2 powi 500"
    using assms by (simp_all add: moderate_def)
  have e: "d * d = \<bar>d\<bar> * \<bar>d\<bar>"
    by simp
  have "(2::real) powi (- 500) * 2 powi (- 500) \<le> \<bar>d\<bar> * \<bar>d\<bar>"
    using m(1) by (intro mult_mono) simp_all
  moreover have "\<bar>d\<bar> * \<bar>d\<bar> \<le> 2 powi 500 * 2 powi 500"
    using m(2) by (intro mult_mono) simp_all
  moreover have "(2::real) powi (- 500) * 2 powi (- 500) = 2 powi (- 1000)"
    using powi_split [of "- 500" "- 500"] by simp
  moreover have "(2::real) powi 500 * 2 powi 500 = 2 powi 1000"
    using powi_split [of 500 500] by simp
  ultimately show ?thesis
    unfolding ranged_def e by simp
qed

lemma sqrt_powi: "sqrt (2 powi (2 * k)) = 2 powi k"
proof -
  have "(2::real) powi (2 * k) = (2 powi k)\<^sup>2"
    using powi_split [of k k] by (simp add: power2_eq_square)
  then show ?thesis
    by (simp only: real_sqrt_abs) simp
qed

lemma ranged_sqrt:
  assumes "ranged (2 * l) (2 * h) y"
  shows "ranged l h (sqrt y)"
proof -
  have y: "0 \<le> y" "y = 0 \<or> 2 powi (2 * l) \<le> y" "y \<le> 2 powi (2 * h)"
    using assms by (simp_all add: ranged_def)
  have "sqrt y = 0 \<or> 2 powi l \<le> sqrt y"
    using y(2) real_sqrt_le_mono [of "2 powi (2 * l)" y] by (auto simp only: sqrt_powi real_sqrt_zero)
  moreover have "sqrt y \<le> 2 powi h"
    using y(3) real_sqrt_le_mono [of y "2 powi (2 * h)"] by (simp only: sqrt_powi)
  ultimately show ?thesis
    using y(1) by (simp add: ranged_def)
qed

lemma moderate_normal: "moderate r \<Longrightarrow> r = 0 \<or> 2 powi (- 500) \<le> \<bar>r\<bar>"
  by (auto simp: moderate_def)

lemma double_moderate:
  assumes "moderate r"
  shows "double r = Fin (nearest r)"
proof -
  have "\<bar>r\<bar> \<le> 2 powi 500"
    using assms by (auto simp: moderate_def)
  moreover have "(2::real) powi 500 \<le> 2 powi 1022"
    by (simp only: powi_le_iff)
  ultimately have "\<bar>r\<bar> \<le> 2 powi 1022"
    by linarith
  with _ moderate_normal [OF assms] show ?thesis
    by (rule double_finite) simp
qed

lemma accurate_moderate:
  assumes "moderate r"
  shows "accurate 1 \<bar>nearest r\<bar> \<bar>r\<bar>" and "sgn (nearest r) = sgn r"
proof -
  have l: "- 1022 \<le> (- 500 :: int)"
    by simp
  show "accurate 1 \<bar>nearest r\<bar> \<bar>r\<bar>"
    using l moderate_normal [OF assms] by (rule accurate_abs_nearest)
  show "sgn (nearest r) = sgn r"
    using l moderate_normal [OF assms] by (rule nearest_relative(2))
qed

text \<open>The square of a rounded moderate number, rounded.\<close>

lemma square64:
  assumes "moderate d"
  shows "double (nearest d * nearest d) = Fin (nearest (nearest d * nearest d))"
    and "accurate 3 (nearest (nearest d * nearest d)) (d * d)"
proof -
  have q: "accurate 2 (nearest d * nearest d) (d * d)"
    using accurate_moderate(1) [OF assms] by (rule accurate_square)
  note r = ranged_square [OF assms]
  show "double (nearest d * nearest d) = Fin (nearest (nearest d * nearest d))"
    using q _ r by (rule double_accurate(1)) simp_all
  have "accurate (Suc 2) (nearest (nearest d * nearest d)) (d * d)"
    using q _ r by (rule double_accurate(2)) simp_all
  then show "accurate 3 (nearest (nearest d * nearest d)) (d * d)"
    by (simp add: numeral_3_eq_3)
qed

text \<open>The distance from the origin of a point with rounded moderate coordinates, as
  \<open>originDistance64\<close> computes it, against the norm of the exact coordinates.\<close>

lemma originDistance64_accurate:
  assumes "moderate dx" and "moderate dy" and "moderate dz"
  shows "\<exists>d. originDistance64 (point (nearest dx) (nearest dy) (nearest dz)) = Fin d
           \<and> accurate 4 d (norm3 dx dy dz)"
proof -
  define sx where "sx = nearest (nearest dx * nearest dx)"
  define sy where "sy = nearest (nearest dy * nearest dy)"
  define sz where "sz = nearest (nearest dz * nearest dz)"
  note x = square64 [OF assms(1), folded sx_def]
  note y = square64 [OF assms(2), folded sy_def]
  note z = square64 [OF assms(3), folded sz_def]
  note rx = ranged_square [OF assms(1)]
  note ry = ranged_square [OF assms(2)]
  note rz = ranged_square [OF assms(3)]
  define s1 where "s1 = nearest (sx + sy)"
  have a1: "accurate 3 (sx + sy) (dx * dx + dy * dy)"
    using x(2) y(2) by (rule accurate_add)
  have r1: "ranged (- 1000) 1001 (dx * dx + dy * dy)"
    using ranged_add [OF rx ry] by simp
  have d1: "double (sx + sy) = Fin s1"
    unfolding s1_def using a1 _ r1 by (rule double_accurate(1)) simp_all
  have "accurate (Suc 3) s1 (dx * dx + dy * dy)"
    unfolding s1_def using a1 _ r1 by (rule double_accurate(2)) simp_all
  then have b1: "accurate 4 s1 (dx * dx + dy * dy)"
    by (simp add: eval_nat_numeral)
  define s2 where "s2 = nearest (s1 + sz)"
  have "accurate 4 sz (dz * dz)"
    using z(2) by (rule accurate_mono) simp_all
  with b1 have a2: "accurate 4 (s1 + sz) (dx * dx + dy * dy + dz * dz)"
    by (rule accurate_add)
  have "ranged (- 1000) 1001 (dz * dz)"
    using rz by (rule ranged_mono) simp
  from ranged_add [OF r1 this]
  have r2: "ranged (- 1000) 1002 (dx * dx + dy * dy + dz * dz)"
    by simp
  have d2: "double (s1 + sz) = Fin s2"
    unfolding s2_def using a2 _ r2 by (rule double_accurate(1)) simp_all
  have "accurate (Suc 4) s2 (dx * dx + dy * dy + dz * dz)"
    unfolding s2_def using a2 _ r2 by (rule double_accurate(2)) simp_all
  then have b2: "accurate 5 s2 (dx * dx + dy * dy + dz * dz)"
    by (simp add: eval_nat_numeral)
  have nn: "0 \<le> dx * dx + dy * dy + dz * dz"
    by simp
  have s2: "0 \<le> s2"
    using b2 nn by (rule accurate_nonneg)
  have "accurate (2 * 3) s2 (dx * dx + dy * dy + dz * dz)"
    using b2 _ nn by (rule accurate_mono) simp
  then have a3: "accurate 3 (sqrt s2) (norm3 dx dy dz)"
    unfolding norm3_def using nn by (rule accurate_sqrt)
  have "ranged (2 * (- 500)) (2 * 501) (dx * dx + dy * dy + dz * dz)"
    using r2 by simp
  then have r3: "ranged (- 500) 501 (norm3 dx dy dz)"
    unfolding norm3_def by (rule ranged_sqrt)
  define d where "d = nearest (sqrt s2)"
  have d3: "double (sqrt s2) = Fin d"
    unfolding d_def using a3 _ r3 by (rule double_accurate(1)) simp_all
  have "accurate (Suc 3) d (norm3 dx dy dz)"
    unfolding d_def using a3 _ r3 by (rule double_accurate(2)) simp_all
  then have b3: "accurate 4 d (norm3 dx dy dz)"
    by (simp add: eval_nat_numeral)
  have "originDistance64 (point (nearest dx) (nearest dy) (nearest dz)) = Fin d"
    using s2 by (simp add: originDistance64_def point_def x(1) y(1) z(1) d1 d2 d3)
  with b3 show ?thesis
    by blast
qed

lemma agree_zero [simp]: "agree 0 0"
  by (simp add: agree_def)

text \<open>The quotient of a rounded moderate number by the rounded scale, rounded, against the
  exact quotient.\<close>

lemma quotient64:
  assumes "moderate d" and "\<bar>d\<bar> \<le> D" and "0 < D" and "D \<le> 2 powi 501" and "accurate 4 m D"
  shows "double (nearest d / m) = Fin (nearest (nearest d / m))"
    and "agree (nearest (nearest d / m)) (d / D)"
proof -
  define c where "c = nearest d"
  define r where "r = c / m"
  define q where "q = nearest r"
  let ?A = "1 - roundoff" and ?B = "1 + roundoff"
  note ac = accurate_moderate [OF assms(1), folded c_def]
  have D0: "0 \<le> D"
    using assms(3) by simp
  note mb = accurate_bounds [OF assms(5) _ D0]
  have m: "0 < m" "D / 2 \<le> m" "m \<le> 2 * D"
    using mb assms(3) by simp_all
  have cb: "\<bar>d\<bar> / 2 \<le> \<bar>c\<bar>" "\<bar>c\<bar> \<le> 2 * \<bar>d\<bar>"
    using accurate_bounds [OF ac(1)] by simp_all
  have r: "\<bar>r\<bar> = \<bar>c\<bar> / m" "m * \<bar>r\<bar> = \<bar>c\<bar>"
    using m(1) by (simp_all add: r_def)
  have low: "r = 0 \<or> 2 powi (- 1003) \<le> \<bar>r\<bar>"
  proof (cases "d = 0")
    case True
    then show ?thesis
      by (simp add: r_def c_def)
  next
    case False
    then have "2 powi (- 500) \<le> \<bar>d\<bar>"
      using assms(1) by (simp add: moderate_def)
    then have "2 powi (- 500) / 2 \<le> \<bar>d\<bar> / 2"
      by simp
    moreover have "(2::real) powi (- 500) / 2 = 2 powi (- 501)"
      using powi_split [of "- 1" "- 500"] by simp
    ultimately have n: "2 powi (- 501) \<le> \<bar>c\<bar>"
      using cb(1) by linarith
    have "m \<le> 2 * 2 powi 501"
      using m(3) assms(4) by linarith
    moreover have "2 * (2::real) powi 501 = 2 powi 502"
      using powi_split [of 1 501] by simp
    ultimately have d: "m \<le> 2 powi 502"
      by linarith
    have "(2::real) powi (- 1003) = 2 powi (- 501) / 2 powi 502"
      using power_int_diff [of "2::real" "- 501" 502] by simp
    also have "\<dots> \<le> \<bar>c\<bar> / m"
      using n d m(1) by (intro frac_le) simp_all
    finally show ?thesis
      using r(1) by simp
  qed
  have "\<bar>c\<bar> / m \<le> (2 * \<bar>d\<bar>) / (D / 2)"
    using cb(2) m(2) assms(3) by (intro frac_le) simp_all
  also have "\<dots> = 4 * (\<bar>d\<bar> / D)"
    by simp
  also have "\<dots> \<le> 4 * 1"
    using assms(2,3) by (intro mult_left_mono) simp_all
  also have "\<dots> = 2 powi 2"
    by simp
  also have "\<dots> \<le> 2 powi 1022"
    by (simp only: powi_le_iff)
  finally have high: "\<bar>r\<bar> \<le> 2 powi 1022"
    using r(1) by simp
  have l: "- 1022 \<le> (- 1003 :: int)"
    by simp
  show "double (nearest d / m) = Fin (nearest (nearest d / m))"
    using double_finite [OF l low high] by (simp add: r_def c_def)
  have sq: "sgn q = sgn r"
    unfolding q_def using l low by (rule nearest_relative(2))
  have "sgn r = sgn c"
    using m(1) by (simp add: r_def)
  moreover have "sgn (d / D) = sgn d"
    using assms(3) by simp
  ultimately have sg: "sgn q = sgn (d / D)"
    using sq ac(2) by simp
  have aq: "?A * \<bar>r\<bar> \<le> \<bar>q\<bar>" "\<bar>q\<bar> \<le> ?B * \<bar>r\<bar>"
    using accurate_abs_nearest [OF l low] by (simp_all add: accurate_def q_def)
  have acc: "?A * \<bar>d\<bar> \<le> \<bar>c\<bar>" "\<bar>c\<bar> \<le> ?B * \<bar>d\<bar>"
    using ac(1) by (simp_all add: accurate_def)
  have am: "?A ^ 4 * D \<le> m" "m \<le> ?B ^ 4 * D"
    using assms(5) by (simp_all add: accurate_def)
  have A: "0 < ?A" and B: "0 < ?B"
    using roundoff_bounds by simp_all
  have up: "m * \<bar>q\<bar> \<le> ?B ^ 2 * \<bar>d\<bar>"
  proof -
    have "m * \<bar>q\<bar> \<le> m * (?B * \<bar>r\<bar>)"
      using aq(2) m(1) by (intro mult_left_mono) simp_all
    also have "\<dots> = ?B * \<bar>c\<bar>"
      using r(2) by (simp add: mult.left_commute)
    also have "\<dots> \<le> ?B * (?B * \<bar>d\<bar>)"
      using acc(2) B by (intro mult_left_mono) simp_all
    finally show ?thesis
      by (simp add: power2_eq_square mult.assoc)
  qed
  have down: "?A ^ 2 * \<bar>d\<bar> \<le> m * \<bar>q\<bar>"
  proof -
    have "?A * (?A * \<bar>d\<bar>) \<le> ?A * \<bar>c\<bar>"
      using acc(1) A by (intro mult_left_mono) simp_all
    also have "\<dots> = m * (?A * \<bar>r\<bar>)"
      using r(2) by (simp add: mult.left_commute)
    also have "\<dots> \<le> m * \<bar>q\<bar>"
      using aq(1) m(1) by (intro mult_left_mono) simp_all
    finally show ?thesis
      by (simp add: power2_eq_square mult.assoc)
  qed
  have e: "\<bar>d / D\<bar> = \<bar>d\<bar> / D"
    using assms(3) by simp
  have 1: "?A ^ 4 * \<bar>q\<bar> \<le> ?B ^ 2 * \<bar>d / D\<bar>"
  proof -
    have "(?A ^ 4 * D) * \<bar>q\<bar> \<le> m * \<bar>q\<bar>"
      using am(1) by (intro mult_right_mono) simp_all
    then have "(?A ^ 4 * \<bar>q\<bar>) * D \<le> ?B ^ 2 * \<bar>d\<bar>"
      using up by (simp add: mult.assoc mult.left_commute mult.commute)
    then have "?A ^ 4 * \<bar>q\<bar> \<le> (?B ^ 2 * \<bar>d\<bar>) / D"
      using assms(3) by (simp add: pos_le_divide_eq)
    then show ?thesis
      unfolding e by simp
  qed
  have 2: "?A ^ 2 * \<bar>d / D\<bar> \<le> ?B ^ 4 * \<bar>q\<bar>"
  proof -
    have "m * \<bar>q\<bar> \<le> (?B ^ 4 * D) * \<bar>q\<bar>"
      using am(2) by (intro mult_right_mono) simp_all
    then have "?A ^ 2 * \<bar>d\<bar> \<le> (?B ^ 4 * \<bar>q\<bar>) * D"
      using down by (simp add: mult.assoc mult.left_commute mult.commute)
    then have "(?A ^ 2 * \<bar>d\<bar>) / D \<le> ?B ^ 4 * \<bar>q\<bar>"
      using assms(3) by (simp add: pos_divide_le_eq)
    then show ?thesis
      unfolding e by simp
  qed
  show "agree (nearest (nearest d / m)) (d / D)"
    using sg 1 2 unfolding agree_def q_def r_def c_def by simp
qed

lemma tolerance_facts:
  "(1 + roundoff) ^ 2 \<le> (1 + TOLERANCE / 2) * (1 - roundoff) ^ 4"
  "(1 - TOLERANCE / 2) * (1 + roundoff) ^ 4 \<le> (1 - roundoff) ^ 2"
  unfolding roundoff_def TOLERANCE_def by (simp_all add: field_simps)

text \<open>Numbers that agree differ by at most half the tolerance, relative to the exact one.\<close>

lemma agree_bounds:
  assumes "agree x e"
  shows "(1 - TOLERANCE / 2) * \<bar>e\<bar> \<le> \<bar>x\<bar>" and "\<bar>x\<bar> \<le> (1 + TOLERANCE / 2) * \<bar>e\<bar>"
proof -
  let ?A = "1 - roundoff" and ?B = "1 + roundoff"
  have A: "0 < ?A ^ 4" and B: "0 < ?B ^ 4"
    using roundoff_bounds by simp_all
  have a: "?A ^ 2 * \<bar>e\<bar> \<le> ?B ^ 4 * \<bar>x\<bar>" "?A ^ 4 * \<bar>x\<bar> \<le> ?B ^ 2 * \<bar>e\<bar>"
    using assms by (simp_all add: agree_def)
  have "?A ^ 4 * \<bar>x\<bar> \<le> ?B ^ 2 * \<bar>e\<bar>"
    by (rule a(2))
  also have "\<dots> \<le> ((1 + TOLERANCE / 2) * ?A ^ 4) * \<bar>e\<bar>"
    using tolerance_facts(1) by (intro mult_right_mono) simp_all
  finally have "?A ^ 4 * \<bar>x\<bar> \<le> ?A ^ 4 * ((1 + TOLERANCE / 2) * \<bar>e\<bar>)"
    by (simp add: mult.assoc mult.left_commute)
  then show "\<bar>x\<bar> \<le> (1 + TOLERANCE / 2) * \<bar>e\<bar>"
    using A by (simp only: mult_le_cancel_left_pos)
  have "((1 - TOLERANCE / 2) * ?B ^ 4) * \<bar>e\<bar> \<le> ?A ^ 2 * \<bar>e\<bar>"
    using tolerance_facts(2) by (intro mult_right_mono) simp_all
  also have "\<dots> \<le> ?B ^ 4 * \<bar>x\<bar>"
    by (rule a(1))
  finally have "?B ^ 4 * ((1 - TOLERANCE / 2) * \<bar>e\<bar>) \<le> ?B ^ 4 * \<bar>x\<bar>"
    by (simp add: mult.assoc mult.left_commute)
  then show "(1 - TOLERANCE / 2) * \<bar>e\<bar> \<le> \<bar>x\<bar>"
    using B by (simp only: mult_le_cancel_left_pos)
qed



section \<open>Normalization in double arithmetic\<close>

lemma moderate_offset:
  "moderateNumber (jsSub Exact c w) \<Longrightarrow> \<exists>p q. c = Fin p \<and> w = Fin q \<and> moderate (p - q)"
  by (cases c; cases w) (auto simp: moderateNumber_def jsSub_def)

lemma moderate_translate:
  assumes "moderateLandmark (translate Exact w p)"
  shows "\<exists>px py pz wx wy wz. p = point px py pz \<and> w = point wx wy wz
           \<and> moderate (px - wx) \<and> moderate (py - wy) \<and> moderate (pz - wz)"
proof -
  have "moderateNumber (jsSub Exact (lm_x p) (lm_x w))"
    "moderateNumber (jsSub Exact (lm_y p) (lm_y w))"
    "moderateNumber (jsSub Exact (lm_z p) (lm_z w))"
    using assms by (simp_all add: moderateLandmark_def translate_def)
  from this [THEN moderate_offset] show ?thesis
    by (cases p; cases w) (auto simp: point_def)
qed

lemma translate64_point:
  assumes "moderate (px - wx)" and "moderate (py - wy)" and "moderate (pz - wz)"
  shows "translate64 (point wx wy wz) (point px py pz)
     = point (nearest (px - wx)) (nearest (py - wy)) (nearest (pz - wz))"
  using assms by (simp add: translate64_def point_def jsSub_def double_moderate)

lemma norm3_ranged:
  assumes "moderate dx" and "moderate dy" and "moderate dz"
  shows "ranged (- 500) 501 (norm3 dx dy dz)"
proof -
  note rx = ranged_square [OF assms(1)]
  note ry = ranged_square [OF assms(2)]
  note rz = ranged_square [OF assms(3)]
  have r1: "ranged (- 1000) 1001 (dx * dx + dy * dy)"
    using ranged_add [OF rx ry] by simp
  have "ranged (- 1000) 1001 (dz * dz)"
    using rz by (rule ranged_mono) simp
  from ranged_add [OF r1 this]
  have "ranged (2 * (- 500)) (2 * 501) (dx * dx + dy * dy + dz * dz)"
    by simp
  then show ?thesis
    unfolding norm3_def by (rule ranged_sqrt)
qed

text \<open>A translated landmark divided by the scale, in double and in exact arithmetic.\<close>

lemma scaleDown64_agree:
  assumes "moderate dx" and "moderate dy" and "moderate dz"
    and "norm3 dx dy dz \<le> D" and "0 < D" and "D \<le> 2 powi 501" and "accurate 4 m D"
  shows "agreeLandmark (scaleDown64 (Fin m) (point (nearest dx) (nearest dy) (nearest dz)))
           (point (dx / D) (dy / D) (dz / D))"
proof -
  have b: "\<bar>dx\<bar> \<le> D" "\<bar>dy\<bar> \<le> D" "\<bar>dz\<bar> \<le> D"
    using abs_le_norm3 [of dx dy dz] assms(4) by simp_all
  have D0: "0 \<le> D"
    using assms(5) by simp
  have "D / 2 \<le> m"
    using accurate_bounds(1) [OF assms(7) _ D0] by simp
  then have m: "m \<noteq> 0"
    using assms(5) by auto
  note x = quotient64 [OF assms(1) b(1) assms(5,6,7)]
  note y = quotient64 [OF assms(2) b(2) assms(5,6,7)]
  note z = quotient64 [OF assms(3) b(3) assms(5,6,7)]
  show ?thesis
    using m x y z
    by (simp add: agreeLandmark_def agreeNumber_def scaleDown64_def point_def)
qed

lemma list_all2_same_map:
  "(\<forall>p\<in>set xs. R (f p) (g p)) \<Longrightarrow> list_all2 R (map f xs) (map g xs)"
  by (induction xs) simp_all

text \<open>For a sample with moderate offsets from the wrist that is not degenerate, each
  coordinate that \<open>normalizeLandmarks\<close> computes in double arithmetic agrees with the one it
  computes in exact arithmetic.\<close>

lemma normalizeLandmarks64_agree:
  assumes "moderateSample S" and "maxDistance Exact S = Fin D"
  shows "list_all2 agreeLandmark (normalizeLandmarks64 S) (normalizeLandmarks Exact S)"
proof -
  let ?A = "1 - roundoff" and ?B = "1 + roundoff"
  obtain w rest where S: "S = w # rest"
    using assms(2) by (cases S) (auto simp: maxDistance_def Math_max_def)
  have mod: "moderateLandmark (translate Exact w p)" if "p \<in> set S" for p
    using assms(1) that by (auto simp: moderateSample_def S list_all_iff)
  from moderate_translate [OF mod [of w]]
  obtain wx wy wz where w: "w = point wx wy wz"
    by (auto simp: S)
  have off: "\<exists>px py pz. p = point px py pz
      \<and> moderate (px - wx) \<and> moderate (py - wy) \<and> moderate (pz - wz)" if "p \<in> set S" for p
    using moderate_translate [OF mod [OF that]] by (auto simp: w point_def)
  have fin: "\<forall>p\<in>set S. finiteLandmark p"
    unfolding finiteLandmark_point using off by blast
  note s = finite_scale [OF fin assms(2)]
  have nE: "normalized Exact S = map (translate Exact w) S"
    and n64: "normalized64 S = map (translate64 w) S"
    by (simp_all add: S)
  have each: "\<exists>dx dy dz d. moderate dx \<and> moderate dy \<and> moderate dz
      \<and> translate Exact w p = point dx dy dz
      \<and> translate64 w p = point (nearest dx) (nearest dy) (nearest dz)
      \<and> norm3 dx dy dz \<le> D
      \<and> originDistance64 (translate64 w p) = Fin d \<and> accurate 4 d (norm3 dx dy dz)"
    if "p \<in> set S" for p
  proof -
    from off [OF that] obtain px py pz where p: "p = point px py pz"
      and m: "moderate (px - wx)" "moderate (py - wy)" "moderate (pz - wz)"
      by blast
    have tE: "translate Exact w p = point (px - wx) (py - wy) (pz - wz)"
      by (simp add: w p translate_Exact_point)
    have t64: "translate64 w p = point (nearest (px - wx)) (nearest (py - wy)) (nearest (pz - wz))"
      unfolding w p using m by (rule translate64_point)
    have "point (px - wx) (py - wy) (pz - wz) \<in> set (normalized Exact S)"
      using that tE by (force simp: nE)
    with s(2) have n: "norm3 (px - wx) (py - wy) (pz - wz) \<le> D"
      by (auto simp: point_def)
    from originDistance64_accurate [OF m] t64 tE n m show ?thesis
      by auto
  qed
  from s(3) obtain tx ty tz where top: "point tx ty tz \<in> set (normalized Exact S)"
    "norm3 tx ty tz = D"
    by blast
  then obtain pt where pt: "pt \<in> set S" "translate Exact w pt = point tx ty tz"
    by (auto simp: nE)
  from each [OF pt(1)] pt(2) obtain dt where dt: "moderate tx" "moderate ty" "moderate tz"
    "originDistance64 (translate64 w pt) = Fin dt" "accurate 4 dt D"
    using top(2) by (auto simp: point_def)
  have D: "0 < D" "D \<le> 2 powi 501"
    using s(1) norm3_ranged [OF dt(1,2,3)] top(2) by (simp_all add: ranged_def)
  have AD: "0 < ?A ^ 4 * D"
    using D(1) roundoff_bounds(3) by simp
  let ?ds = "filter (\<lambda>d. jsGt d (Fin 0)) (map originDistance64 (normalized64 S))"
  have "?A ^ 4 * D \<le> dt"
    using dt(5) by (simp add: accurate_def)
  then have "0 < dt"
    using AD by linarith
  then have in_ds: "Fin dt \<in> set ?ds"
    using pt(1) dt(4) by (force simp: n64 jsGt_def)
  have all_ds: "\<exists>r. d = Fin r \<and> r \<le> ?B ^ 4 * D" if "d \<in> set ?ds" for d
  proof -
    from that obtain p where p: "p \<in> set S" "d = originDistance64 (translate64 w p)"
      by (auto simp: n64)
    from each [OF p(1)] obtain dx dy dz r where r: "norm3 dx dy dz \<le> D"
      "originDistance64 (translate64 w p) = Fin r" "accurate 4 r (norm3 dx dy dz)"
      by blast
    have "r \<le> ?B ^ 4 * norm3 dx dy dz"
      using r(3) by (simp add: accurate_def)
    also have "\<dots> \<le> ?B ^ 4 * D"
      using r(1) roundoff_bounds(5) by (intro mult_left_mono) simp_all
    finally show ?thesis
      using p(2) r(2) by simp
  qed
  have pos_ds: "\<forall>d\<in>set ?ds. jsGt d (Fin 0)"
    by simp
  from Math_max_positive [OF pos_ds] in_ds all_ds
  obtain m where m: "Math_max ?ds = Fin m" "0 < m" "Fin m \<in> set ?ds"
    "\<forall>d\<in>set ?ds. \<exists>r. d = Fin r \<and> r \<le> m"
    by (cases "?ds = []") auto
  have "dt \<le> m"
    using m(4) in_ds by auto
  moreover have "m \<le> ?B ^ 4 * D"
    using all_ds [OF m(3)] by simp
  ultimately have am: "accurate 4 m D"
    using \<open>?A ^ 4 * D \<le> dt\<close> by (simp add: accurate_def)
  have md: "maxDistance64 S = Fin m"
    using m(1) by (simp add: maxDistance64_def)
  have out64: "normalizeLandmarks64 S = map (\<lambda>p. scaleDown64 (Fin m) (translate64 w p)) S"
    using m(2) by (simp add: normalizeLandmarks64_def md n64)
  have outE: "normalizeLandmarks Exact S = map (\<lambda>p. scaleDown Exact (Fin D) (translate Exact w p)) S"
    using D(1) by (simp add: normalizeLandmarks_def assms(2) nE)
  have "agreeLandmark (scaleDown64 (Fin m) (translate64 w p))
      (scaleDown Exact (Fin D) (translate Exact w p))" if "p \<in> set S" for p
  proof -
    from each [OF that] obtain dx dy dz where d: "moderate dx" "moderate dy" "moderate dz"
      "translate Exact w p = point dx dy dz"
      "translate64 w p = point (nearest dx) (nearest dy) (nearest dz)"
      "norm3 dx dy dz \<le> D"
      by blast
    have "scaleDown Exact (Fin D) (point dx dy dz) = point (dx / D) (dy / D) (dz / D)"
      using D(1) d(6) by (rule scaleDown_point)
    then show ?thesis
      unfolding d(4,5) using scaleDown64_agree [OF d(1,2,3,6) D am] by simp
  qed
  then show ?thesis
    unfolding out64 outE by (intro list_all2_same_map) simp
qed


text \<open>In exact arithmetic the normalized landmarks of a sample with a finite scale have
  norms of at most 1, and one of them has norm 1.\<close>

lemma normalizeLandmarks_Exact_unit:
  assumes "\<forall>p\<in>set S. finiteLandmark p" and "maxDistance Exact S = Fin D"
  shows "\<forall>q\<in>set (normalizeLandmarks Exact S). \<exists>x y z. q = point x y z \<and> norm3 x y z \<le> 1"
    and "\<exists>x y z. point x y z \<in> set (normalizeLandmarks Exact S) \<and> norm3 x y z = 1"
proof -
  note s = finite_scale [OF assms]
  have out: "normalizeLandmarks Exact S = map (scaleDown Exact (Fin D)) (normalized Exact S)"
    using s(1) by (simp add: normalizeLandmarks_def assms(2))
  have scaled: "scaleDown Exact (Fin D) (point x y z) = point (x / D) (y / D) (z / D)
      \<and> norm3 (x / D) (y / D) (z / D) = norm3 x y z / D" if "norm3 x y z \<le> D" for x y z
    using scaleDown_point [OF s(1) that] norm3_divide [OF s(1)] by simp
  show "\<forall>q\<in>set (normalizeLandmarks Exact S). \<exists>x y z. q = point x y z \<and> norm3 x y z \<le> 1"
  proof
    fix q
    assume "q \<in> set (normalizeLandmarks Exact S)"
    then obtain t where t: "t \<in> set (normalized Exact S)" "q = scaleDown Exact (Fin D) t"
      by (auto simp: out)
    from s(2) t(1) obtain x y z where x: "t = point x y z" "norm3 x y z \<le> D"
      by blast
    have "norm3 x y z / D \<le> 1"
      using x(2) s(1) by simp
    then show "\<exists>x y z. q = point x y z \<and> norm3 x y z \<le> 1"
      using scaled [OF x(2)] t(2) x(1) by metis
  qed
  from s(3) obtain x y z where top: "point x y z \<in> set (normalized Exact S)" "norm3 x y z = D"
    by blast
  have "norm3 x y z \<le> D"
    using top(2) by simp
  from scaled [OF this] have "scaleDown Exact (Fin D) (point x y z) = point (x / D) (y / D) (z / D)"
    "norm3 (x / D) (y / D) (z / D) = 1"
    using top(2) s(1) by simp_all
  moreover have "scaleDown Exact (Fin D) (point x y z) \<in> set (normalizeLandmarks Exact S)"
    using top(1) by (simp add: out)
  ultimately show "\<exists>x y z. point x y z \<in> set (normalizeLandmarks Exact S) \<and> norm3 x y z = 1"
    by metis
qed

lemma agreeNumber_iff: "agreeNumber u (Fin e) \<longleftrightarrow> (\<exists>x. u = Fin x \<and> agree x e)"
  by (cases u) (auto simp: agreeNumber_def)

lemma agreeLandmark_point:
  "agreeLandmark p (point ex ey ez) \<longleftrightarrow>
     (\<exists>x y z. p = point x y z \<and> agree x ex \<and> agree y ey \<and> agree z ez)"
  by (cases p) (auto simp: agreeLandmark_def point_def agreeNumber_iff)



text \<open>The norm of a point whose coordinates agree with those of another.\<close>

lemma norm3_mono:
  assumes "\<bar>x\<bar> \<le> c * \<bar>ex\<bar>" and "\<bar>y\<bar> \<le> c * \<bar>ey\<bar>" and "\<bar>z\<bar> \<le> c * \<bar>ez\<bar>" and "0 \<le> c"
  shows "norm3 x y z \<le> c * norm3 ex ey ez"
proof -
  have sq: "a * a \<le> (c * c) * (b * b)" if "\<bar>a\<bar> \<le> c * \<bar>b\<bar>" for a b :: real
  proof -
    have "\<bar>a\<bar> * \<bar>a\<bar> \<le> (c * \<bar>b\<bar>) * (c * \<bar>b\<bar>)"
      using that by (intro mult_mono) (simp_all add: assms(4))
    moreover have "\<bar>a\<bar> * \<bar>a\<bar> = a * a" "\<bar>b\<bar> * \<bar>b\<bar> = b * b"
      by simp_all
    ultimately show ?thesis
      by (simp add: algebra_simps)
  qed
  have "x * x + y * y + z * z \<le> (c * c) * (ex * ex + ey * ey + ez * ez)"
    using sq [OF assms(1)] sq [OF assms(2)] sq [OF assms(3)] by (simp add: distrib_left)
  then have "norm3 x y z \<le> sqrt ((c * c) * (ex * ex + ey * ey + ez * ez))"
    unfolding norm3_def by (rule real_sqrt_le_mono)
  also have "\<dots> = c * norm3 ex ey ez"
    using assms(4) by (simp add: norm3_def real_sqrt_mult)
  finally show ?thesis .
qed

lemma agree_norm3:
  assumes "agree x ex" and "agree y ey" and "agree z ez"
  shows "(1 - TOLERANCE / 2) * norm3 ex ey ez \<le> norm3 x y z"
    and "norm3 x y z \<le> (1 + TOLERANCE / 2) * norm3 ex ey ez"
proof -
  have t: "0 < 1 - TOLERANCE / 2" "0 \<le> 1 + TOLERANCE / 2"
    by (simp_all add: TOLERANCE_def)
  note bx = agree_bounds [OF assms(1)]
  note by' = agree_bounds [OF assms(2)]
  note bz = agree_bounds [OF assms(3)]
  show "norm3 x y z \<le> (1 + TOLERANCE / 2) * norm3 ex ey ez"
    using bx(2) by'(2) bz(2) t(2) by (rule norm3_mono)
  have inv: "\<bar>e\<bar> \<le> (1 / (1 - TOLERANCE / 2)) * \<bar>v\<bar>"
    if "(1 - TOLERANCE / 2) * \<bar>e\<bar> \<le> \<bar>v\<bar>" for e v :: real
    using that t(1) by (simp add: field_simps)
  have "norm3 ex ey ez \<le> (1 / (1 - TOLERANCE / 2)) * norm3 x y z"
    using inv [OF bx(1)] inv [OF by'(1)] inv [OF bz(1)] t(1) by (intro norm3_mono) simp_all
  then show "(1 - TOLERANCE / 2) * norm3 ex ey ez \<le> norm3 x y z"
    using t(1) by (simp add: field_simps)
qed

section \<open>Hands whose squares overflow or underflow\<close>

text \<open>Hands at the origin except for the last landmark, which lies on the \<open>x\<close> axis.\<close>

lemma originDistance64_origin: "originDistance64 origin = Fin 0"
  by (simp add: originDistance64_def origin_def)

lemma normalized64_finger:
  "double v = Fin v \<Longrightarrow>
   normalized64 (replicate 20 origin @ [point v 0 0]) = replicate 20 origin @ [point v 0 0]"
  by (simp add: numeral_eq_Suc translate64_def origin_def jsSub_def point_def)

lemma originDistance64_finger:
  assumes "double (v * v) = Fin s" and "double s = Fin s" and "0 \<le> s"
  shows "originDistance64 (point v 0 0) = double (sqrt s)"
  using assms by (simp add: originDistance64_def point_def)

lemma originDistance64_overflow:
  assumes "double (v * v) = PInf"
  shows "originDistance64 (point v 0 0) = PInf"
  using assms by (simp add: originDistance64_def point_def)

lemma maxDistance64_finger:
  assumes "double v = Fin v"
  shows "maxDistance64 (replicate 20 origin @ [point v 0 0])
     = Math_max (filter (\<lambda>d. jsGt d (Fin 0)) [originDistance64 (point v 0 0)])"
  unfolding maxDistance64_def normalized64_finger [OF assms]
  by (simp add: originDistance64_origin jsGt_def)

lemma scaleDown64_origin: "m \<noteq> 0 \<Longrightarrow> scaleDown64 (Fin m) origin = origin"
  by (simp add: scaleDown64_def origin_def)

lemma normalizeLandmarks64_finger:
  assumes "double v = Fin v" and "originDistance64 (point v 0 0) = Fin m" and "0 < m"
  shows "normalizeLandmarks64 (replicate 20 origin @ [point v 0 0])
     = replicate 20 origin @ [\<lparr>lm_x = double (v / m), lm_y = Fin 0, lm_z = Fin 0\<rparr>]"
proof -
  have md: "maxDistance64 (replicate 20 origin @ [point v 0 0]) = Fin m"
    unfolding maxDistance64_finger [OF assms(1)] assms(2)
    using assms(3) by (simp add: jsGt_def Math_max_def)
  have m: "m \<noteq> 0"
    using assms(3) by simp
  show ?thesis
    unfolding normalizeLandmarks64_def md normalized64_finger [OF assms(1)]
    using m by (simp add: scaleDown64_origin) (simp add: scaleDown64_def point_def)
qed

lemma normalizeLandmarks64_unscaled:
  assumes "double v = Fin v"
    and "originDistance64 (point v 0 0) = PInf \<or> originDistance64 (point v 0 0) = Fin 0"
  shows "normalizeLandmarks64 (replicate 20 origin @ [point v 0 0])
     = replicate 20 origin @ [point v 0 0]"
proof -
  have "\<not> isFinite (maxDistance64 (replicate 20 origin @ [point v 0 0]))"
    unfolding maxDistance64_finger [OF assms(1)]
    using assms(2) by (auto simp: jsGt_def Math_max_def)
  then show ?thesis
    by (simp add: normalizeLandmarks64_def normalized64_finger [OF assms(1)])
qed


text \<open>The huge hand: the square of its coordinate overflows.\<close>

lemma normalizeLandmarks64_hugeHand: "normalizeLandmarks64 hugeHand = hugeHand"
  unfolding hugeHand_def using double_huge
proof (rule normalizeLandmarks64_unscaled)
  show "originDistance64 (point huge 0 0) = PInf \<or> originDistance64 (point huge 0 0) = Fin 0"
    using originDistance64_overflow [OF double_huge_square] by simp
qed

text \<open>The tiny hand: the square of its coordinate is rounded to the least double.\<close>

lemma MIN_VALUE_pos: "0 < MIN_VALUE"
  by (simp add: MIN_VALUE_def)

lemma tiny_facts:
  "tiny * tiny = 81 / 64 * MIN_VALUE" "sqrt MIN_VALUE = 2 powi (- 537)"
  "tiny / sqrt MIN_VALUE = 9 / 8" "2 powi (- 1022) = 2 ^ 52 * MIN_VALUE"
proof -
  have a: "(2::real) powi (- 1080) = 2 powi (- 6) * 2 powi (- 1074)"
    using powi_split [of "- 6" "- 1074"] by simp
  have b: "(2::real) powi (- 540) * 2 powi (- 540) = 2 powi (- 1080)"
    using powi_split [of "- 540" "- 540"] by simp
  have c: "(2::real) powi (- 6) = 1 / 64"
    by (simp only: power_int_minus_divide power_int_numeral) simp
  have "tiny * tiny = 81 * ((2::real) powi (- 540) * 2 powi (- 540))"
    by (simp add: tiny_def)
  then show "tiny * tiny = 81 / 64 * MIN_VALUE"
    unfolding b a c MIN_VALUE_def by simp
  show r: "sqrt MIN_VALUE = 2 powi (- 537)"
    unfolding MIN_VALUE_def using sqrt_powi [of "- 537"] by simp
  have d: "(2::real) powi (- 540) = 2 powi (- 3) * 2 powi (- 537)"
    using powi_split [of "- 3" "- 537"] by simp
  have e: "(2::real) powi (- 3) = 1 / 8"
    by (simp only: power_int_minus_divide power_int_numeral) simp
  show "tiny / sqrt MIN_VALUE = 9 / 8"
    unfolding r tiny_def d e by simp
  show "2 powi (- 1022) = 2 ^ 52 * MIN_VALUE"
    unfolding MIN_VALUE_def using powi_split [of 52 "- 1074"] by simp
qed

lemma double_tiny:
  "double tiny = Fin tiny" "double (tiny * tiny) = Fin MIN_VALUE" "double MIN_VALUE = Fin MIN_VALUE"
  "double (sqrt MIN_VALUE) = Fin (sqrt MIN_VALUE)" "double (9 / 8) = Fin (9 / 8)"
proof -
  show "double tiny = Fin tiny"
    unfolding tiny_def using double_representable [of 9 "- 540"] by simp
  show "double MIN_VALUE = Fin MIN_VALUE"
    unfolding MIN_VALUE_def using double_representable [of 1 "- 1074"] by simp
  show "double (sqrt MIN_VALUE) = Fin (sqrt MIN_VALUE)"
    unfolding tiny_facts(2) using double_representable [of 1 "- 537"] by simp
  have e: "(2::real) powi (- 3) = 1 / 8"
    by (simp only: power_int_minus_divide power_int_numeral) simp
  show "double (9 / 8) = Fin (9 / 8)"
    using double_representable [of 9 "- 3"] unfolding e by simp
  have 1: "0 \<le> tiny * tiny"
    by simp
  have 2: "tiny * tiny < 2 powi (- 1022)"
    unfolding tiny_facts(1,4) using MIN_VALUE_pos by simp
  have "tiny * tiny / 2 powi (- 1074) = 81 / 64"
    unfolding tiny_facts(1) MIN_VALUE_def by simp
  then have 3: "\<bar>tiny * tiny / 2 powi (- 1074) - of_int 1\<bar> < 1 / 2"
    by simp
  from double_underflow [OF 1 2 3] show "double (tiny * tiny) = Fin MIN_VALUE"
    by (simp add: MIN_VALUE_def)
qed

lemma normalizeLandmarks64_tinyHand:
  "maxDistance64 tinyHand = Fin (sqrt MIN_VALUE)"
  "normalizeLandmarks64 tinyHand = replicate 20 origin @ [point (9 / 8) 0 0]"
proof -
  have d: "originDistance64 (point tiny 0 0) = Fin (sqrt MIN_VALUE)"
    using originDistance64_finger [OF double_tiny(2,3)] MIN_VALUE_pos by (simp add: double_tiny(4))
  have p: "0 < sqrt MIN_VALUE"
    using MIN_VALUE_pos by simp
  show "maxDistance64 tinyHand = Fin (sqrt MIN_VALUE)"
    unfolding tinyHand_def maxDistance64_finger [OF double_tiny(1)] d
    using p by (simp add: jsGt_def Math_max_def)
  show "normalizeLandmarks64 tinyHand = replicate 20 origin @ [point (9 / 8) 0 0]"
    unfolding tinyHand_def normalizeLandmarks64_finger [OF double_tiny(1) d p] tiny_facts(3)
    by (simp add: double_tiny(5) point_def)
qed

lemma huge_ge: "2 \<le> huge"
proof -
  have "(2::real) ^ 1 \<le> 2 ^ 600"
    by (rule power_increasing) simp_all
  then show ?thesis
    by (simp add: huge_def)
qed

lemma norm3_axis: "0 \<le> v \<Longrightarrow> norm3 v 0 0 = v"
  by (simp add: norm3_def)

lemma Math_max_finger:
  "0 \<le> v \<Longrightarrow> Math_max (map (originDistance Exact) (replicate 20 origin @ [point v 0 0])) = Fin v"
  by (simp add: originDistance_origin originDistance_Exact_point norm3_axis Math_max_def
      numeral_eq_Suc max_def)



lemma moderate_simps: "moderate 0" "moderate 1" "moderate 2"
proof -
  have "(2::real) powi (- 500) \<le> 2 powi 0" "(2::real) powi 0 \<le> 2 powi 500"
    "(2::real) powi (- 500) \<le> 2 powi 1" "(2::real) powi 1 \<le> 2 powi 500"
    by (simp_all only: powi_le_iff)
  then show "moderate 0" "moderate 1" "moderate 2"
    by (simp_all add: moderate_def)
qed

lemma moderateSample_unitHand:
  "moderateSample unitHand" "moderateSample (map (scaleAndTranslate 2 1 1 1) unitHand)"
proof -
  show "moderateSample unitHand"
    by (simp add: moderateSample_def normalized_unitHand)
       (simp add: unitHand_def list_all_iff moderateLandmark_def moderateNumber_def origin_def
          point_def moderate_simps)
  have k: "(0::real) < 2"
    by simp
  have w: "finiteLandmark origin"
    by (simp add: finiteLandmark_def origin_def)
  have u: "unitHand = origin # (replicate 19 origin @ [point 1 0 0])"
    by (simp add: unitHand_def numeral_eq_Suc)
  have "normalized Exact (map (scaleAndTranslate 2 1 1 1) unitHand)
      = map (scaleLandmark 2) (normalized Exact unitHand)"
    unfolding u using k w by (rule normalized_scaled)
  then show "moderateSample (map (scaleAndTranslate 2 1 1 1) unitHand)"
    by (simp add: moderateSample_def normalized_unitHand)
       (simp add: unitHand_def list_all_iff moderateLandmark_def moderateNumber_def origin_def
          point_def scaleLandmark_def moderate_simps)
qed

lemma translate64_self: "finiteLandmark p \<Longrightarrow> translate64 p p = origin"
  by (auto simp: finiteLandmark_point translate64_def point_def origin_def jsSub_def)

section \<open>The wrist and the scale of normalized landmarks\<close>

text \<open>
  C9, as the claim states it: when the coordinates are finite, landmark 0 of the result of
  \<open>normalizeLandmarks\<close> is the origin, and when the input is not degenerate the greatest
  Euclidean norm of the landmarks of the result is exactly 1. The second half fails. The tiny
  hand has finite coordinates, its last landmark is not at the wrist, and its scale is finite
  and positive; but the square of its coordinate is rounded to the least double, the scale is
  the square root of that, and the last landmark of the result has norm 9/8. The huge hand
  has finite coordinates and its last landmark is not at the wrist; the square of its
  coordinate overflows, the scale is infinite, and the result is the hand itself, of norm
  \<open>2 ^ 600\<close>.
\<close>

theorem normalizeLandmarks64_not_unit:
  "list_all finiteLandmark tinyHand \<and> tinyHand ! 20 \<noteq> tinyHand ! 0
   \<and> maxDistance64 tinyHand = Fin (sqrt MIN_VALUE) \<and> 0 < sqrt MIN_VALUE
   \<and> normalizeLandmarks64 tinyHand = replicate 20 origin @ [point (9 / 8) 0 0]
   \<and> Math_max (map (originDistance Exact) (normalizeLandmarks64 tinyHand)) = Fin (9 / 8)
   \<and> list_all finiteLandmark hugeHand \<and> hugeHand ! 20 \<noteq> hugeHand ! 0
   \<and> normalizeLandmarks64 hugeHand = hugeHand
   \<and> Math_max (map (originDistance Exact) (normalizeLandmarks64 hugeHand)) = Fin huge"
proof -
  have t: "tiny \<noteq> 0"
    by (simp add: tiny_def)
  have h: "0 \<le> huge" "huge \<noteq> 0"
    using huge_ge by simp_all
  have 1: "list_all finiteLandmark tinyHand \<and> tinyHand ! 20 \<noteq> tinyHand ! 0"
    using t
    by (simp add: tinyHand_def finiteLandmark_def origin_def point_def nth_append list_all_iff)
  have 2: "list_all finiteLandmark hugeHand \<and> hugeHand ! 20 \<noteq> hugeHand ! 0"
    using h(2)
    by (simp add: hugeHand_def finiteLandmark_def origin_def point_def nth_append list_all_iff)
  have 3: "Math_max (map (originDistance Exact) (normalizeLandmarks64 tinyHand)) = Fin (9 / 8)"
    unfolding normalizeLandmarks64_tinyHand(2) by (rule Math_max_finger) simp
  have "Math_max (map (originDistance Exact) hugeHand) = Fin huge"
    unfolding hugeHand_def using h(1) by (rule Math_max_finger)
  then have 4: "Math_max (map (originDistance Exact) (normalizeLandmarks64 hugeHand)) = Fin huge"
    by (simp only: normalizeLandmarks64_hugeHand)
  show ?thesis
    using 1 2 3 4 normalizeLandmarks64_tinyHand normalizeLandmarks64_hugeHand MIN_VALUE_pos
    by simp
qed

text \<open>
  C9, amended. In double arithmetic, when the coordinates of the input are finite, landmark 0
  of the result of \<open>normalizeLandmarks\<close> is exactly the origin; and when moreover the sample
  is moderate and one of its landmarks is not at the wrist, the greatest Euclidean norm of the
  landmarks of the result is 1 up to the tolerance \<open>2 ^ -49\<close>. The norms are those of the
  computed landmarks, taken in exact arithmetic.
\<close>

theorem normalizeLandmarks64_wrist_and_scale:
  assumes "lms \<noteq> []" and "\<forall>p\<in>set lms. finiteLandmark p"
  shows "normalizeLandmarks64 lms ! 0 = origin
    \<and> (moderateSample lms \<and> (\<exists>p\<in>set lms. p \<noteq> lms ! 0) \<longrightarrow>
         (\<exists>M. Math_max (map (originDistance Exact) (normalizeLandmarks64 lms)) = Fin M
              \<and> \<bar>M - 1\<bar> \<le> TOLERANCE))"
proof
  obtain w rest where lms: "lms = w # rest"
    using assms(1) by (cases lms) auto
  have n0: "normalized64 lms ! 0 = origin"
    using assms(2) by (simp add: lms translate64_self)
  show "normalizeLandmarks64 lms ! 0 = origin"
  proof (cases "maxDistance64 lms = Fin 0 \<or> \<not> isFinite (maxDistance64 lms)")
    case True
    then show ?thesis
      using n0 by (simp add: normalizeLandmarks64_def)
  next
    case False
    then obtain m where m: "maxDistance64 lms = Fin m" "m \<noteq> 0"
      by (auto simp: isFinite_iff)
    have "normalizeLandmarks64 lms = map (scaleDown64 (Fin m)) (normalized64 lms)"
      using m by (simp add: normalizeLandmarks64_def)
    moreover have "0 < length (normalized64 lms)"
      by (simp add: lms)
    ultimately have "normalizeLandmarks64 lms ! 0 = scaleDown64 (Fin m) (normalized64 lms ! 0)"
      by (simp only: nth_map)
    then show ?thesis
      using m(2) by (simp add: n0 scaleDown64_origin)
  qed
  show "moderateSample lms \<and> (\<exists>p\<in>set lms. p \<noteq> lms ! 0) \<longrightarrow>
         (\<exists>M. Math_max (map (originDistance Exact) (normalizeLandmarks64 lms)) = Fin M
              \<and> \<bar>M - 1\<bar> \<le> TOLERANCE)"
  proof
    assume h: "moderateSample lms \<and> (\<exists>p\<in>set lms. p \<noteq> lms ! 0)"
    have "isFinite (maxDistance Exact lms)"
      using finite_scale_iff [OF assms(2)] h by simp
    then obtain D where D: "maxDistance Exact lms = Fin D"
      by (auto simp: isFinite_iff)
    have a: "list_all2 agreeLandmark (normalizeLandmarks64 lms) (normalizeLandmarks Exact lms)"
      using h D by (intro normalizeLandmarks64_agree) simp_all
    note unit = normalizeLandmarks_Exact_unit [OF assms(2) D]
    let ?ds = "map (originDistance Exact) (normalizeLandmarks64 lms)"
    have t: "0 \<le> TOLERANCE" "0 \<le> 1 + TOLERANCE / 2"
      by (simp_all add: TOLERANCE_def)
    have norm: "\<exists>x y z. p = point x y z
        \<and> (1 - TOLERANCE / 2) * norm3 ex ey ez \<le> norm3 x y z
        \<and> norm3 x y z \<le> (1 + TOLERANCE / 2) * norm3 ex ey ez"
      if "agreeLandmark p (point ex ey ez)" for p ex ey ez
      using that agree_norm3 unfolding agreeLandmark_point by blast
    have upper: "\<forall>d\<in>set ?ds. \<exists>r. d = Fin r \<and> r \<le> 1 + TOLERANCE / 2"
    proof
      fix d
      assume "d \<in> set ?ds"
      then obtain i where i: "i < length (normalizeLandmarks64 lms)"
        "d = originDistance Exact (normalizeLandmarks64 lms ! i)"
        by (auto simp: in_set_conv_nth)
      have "normalizeLandmarks Exact lms ! i \<in> set (normalizeLandmarks Exact lms)"
        using i(1) list_all2_lengthD [OF a] by simp
      with unit(1) obtain ex ey ez where e: "normalizeLandmarks Exact lms ! i = point ex ey ez"
        "norm3 ex ey ez \<le> 1"
        by blast
      have "agreeLandmark (normalizeLandmarks64 lms ! i) (point ex ey ez)"
        using list_all2_nthD [OF a i(1)] e(1) by simp
      from norm [OF this] obtain x y z where x: "normalizeLandmarks64 lms ! i = point x y z"
        "norm3 x y z \<le> (1 + TOLERANCE / 2) * norm3 ex ey ez"
        by blast
      have "(1 + TOLERANCE / 2) * norm3 ex ey ez \<le> (1 + TOLERANCE / 2) * 1"
        using e(2) t(2) by (rule mult_left_mono)
      then have "norm3 x y z \<le> 1 + TOLERANCE / 2"
        using x(2) by simp
      then show "\<exists>r. d = Fin r \<and> r \<le> 1 + TOLERANCE / 2"
        by (simp add: i(2) x(1) originDistance_Exact_point)
    qed
    from unit(2) obtain ex ey ez where top: "point ex ey ez \<in> set (normalizeLandmarks Exact lms)"
      "norm3 ex ey ez = 1"
      by blast
    then obtain j where j: "j < length (normalizeLandmarks Exact lms)"
      "normalizeLandmarks Exact lms ! j = point ex ey ez"
      by (auto simp: in_set_conv_nth)
    have "agreeLandmark (normalizeLandmarks64 lms ! j) (point ex ey ez)"
      using list_all2_nthD2 [OF a j(1)] j(2) by simp
    from norm [OF this] obtain x y z where x: "normalizeLandmarks64 lms ! j = point x y z"
      "(1 - TOLERANCE / 2) * norm3 ex ey ez \<le> norm3 x y z"
      by blast
    have jl: "j < length (normalizeLandmarks64 lms)"
      using j(1) list_all2_lengthD [OF a] by simp
    then have "originDistance Exact (normalizeLandmarks64 lms ! j) \<in> set ?ds"
      by simp
    then have in_ds: "Fin (norm3 x y z) \<in> set ?ds"
      by (simp add: x(1) originDistance_Exact_point)
    from Math_max_bounded [OF upper] in_ds
    obtain M where M: "Math_max ?ds = Fin M" "M \<le> 1 + TOLERANCE / 2"
      "\<forall>d\<in>set ?ds. \<exists>r. d = Fin r \<and> r \<le> M"
      by (cases "?ds = []") auto
    have "norm3 x y z \<le> M"
      using M(3) in_ds by auto
    then have "1 - TOLERANCE / 2 \<le> M"
      using x(2) top(2) by simp
    then have "\<bar>M - 1\<bar> \<le> TOLERANCE"
      using M(2) t(1) by (simp add: abs_le_iff)
    with M(1) show "\<exists>M. Math_max ?ds = Fin M \<and> \<bar>M - 1\<bar> \<le> TOLERANCE"
      by blast
  qed
qed

theorem normalizeLandmarks64_wrist_and_scale_witness:
  "unitHand \<noteq> [] \<and> moderateSample unitHand
   \<and> normalizeLandmarks64 unitHand ! 0 = origin
   \<and> (\<exists>M. Math_max (map (originDistance Exact) (normalizeLandmarks64 unitHand)) = Fin M
          \<and> \<bar>M - 1\<bar> \<le> TOLERANCE)"
proof -
  have ne: "unitHand \<noteq> []"
    by (simp add: unitHand_def)
  have n: "\<exists>p\<in>set unitHand. p \<noteq> unitHand ! 0"
    by (simp add: unitHand_def nth_append point_def origin_def)
  from normalizeLandmarks64_wrist_and_scale [OF ne finite_unitHand] moderateSample_unitHand(1) n ne
  show ?thesis
    by simp
qed

section \<open>Normalization under scaling and translation\<close>




end
